theory Spec2Isabelle
  imports Complex_Main
begin

section \<open>Numbers read from strings\<close>

text \<open>
  The connectors keep prices and quantities as strings and read them with JavaScript's
  \<^verbatim>\<open>parseFloat\<close>, which is not code of the repository. Every definition below
  takes that function as the parameter \<open>pf\<close>: it sends a string to \<open>None\<close> when
  \<^verbatim>\<open>parseFloat\<close> gives \<^verbatim>\<open>NaN\<close> and to \<open>Some v\<close> otherwise, where the values
  \<open>v\<close> are linearly ordered (the doubles other than \<^verbatim>\<open>NaN\<close>, infinities included).
\<close>

type_synonym 'v num = "'v option"

definition num_gt_zero :: "'v::{linorder,zero} num \<Rightarrow> bool" where
  \<comment> \<open>\<^verbatim>\<open>x > 0\<close>: false on \<^verbatim>\<open>NaN\<close>.\<close>
  "num_gt_zero x = (case x of None \<Rightarrow> False | Some v \<Rightarrow> 0 < v)"

definition num_minus :: "'v::linorder num \<Rightarrow> 'v num \<Rightarrow> int" where
  \<comment> \<open>The sign of \<^verbatim>\<open>x - y\<close> as \<^verbatim>\<open>Array.prototype.sort\<close> reads a comparator's result:
      a \<^verbatim>\<open>NaN\<close> difference counts as \<open>0\<close>.\<close>
  "num_minus x y =
     (case x of None \<Rightarrow> 0
      | Some a \<Rightarrow> (case y of None \<Rightarrow> 0
          | Some b \<Rightarrow> (if a < b then - 1 else if a = b then 0 else 1)))"

text \<open>
  A reader for plain decimal literals (digits, then optionally a point and digits), with
  their exact value; like \<^verbatim>\<open>parseFloat\<close> it reads the longest such prefix and gives
  \<^verbatim>\<open>NaN\<close> when there is none. It instantiates \<open>pf\<close> at concrete inputs.
\<close>

definition is_digit :: "char \<Rightarrow> bool" where
  "is_digit c = ((48::nat) \<le> of_char c \<and> of_char c \<le> (57::nat))"

definition digits_value :: "string \<Rightarrow> nat" where
  "digits_value ds = foldl (\<lambda>acc c. 10 * acc + (of_char c - 48)) 0 ds"

definition parseDecimal :: "string \<Rightarrow> rat num" where
  "parseDecimal s =
     (let ip = takeWhile is_digit s; rest = dropWhile is_digit s
      in if ip = [] then None
         else (case rest of
             [] \<Rightarrow> Some (of_nat (digits_value ip))
           | c # more \<Rightarrow>
               (if c = CHR ''.''
                then (let fp = takeWhile is_digit more
                      in Some (of_nat (digits_value ip)
                               + of_nat (digits_value fp) / 10 ^ length fp))
                else Some (of_nat (digits_value ip)))))"

section \<open>The order book of the public connector\<close>

record OkxMarketDepthLevel =
  side :: string
  event_time :: string
  price_level :: string
  new_quantity :: string

record OkxMarketDepthEvent =
  type :: string
  product_id :: string
  updates :: "OkxMarketDepthLevel list"

text \<open>The fields of \<^verbatim>\<open>OKXSpotPublicConnector\<close> that the book operations read and write.\<close>

record OKXSpotPublicConnector =
  sklSymbol :: string
  bids :: "OkxMarketDepthLevel list"
  asks :: "OkxMarketDepthLevel list"

subsection \<open>Array operations\<close>

fun findIndex :: "('a \<Rightarrow> bool) \<Rightarrow> 'a list \<Rightarrow> int" where
  "findIndex P [] = - 1"
| "findIndex P (x # xs) =
     (if P x then 0 else (let i = findIndex P xs in if i = - 1 then - 1 else i + 1))"

definition splice :: "'a list \<Rightarrow> int \<Rightarrow> int \<Rightarrow> 'a list" where
  \<comment> \<open>\<^verbatim>\<open>xs.splice(start, deleteCount)\<close>, the array left behind: a negative start counts
      from the end, and both numbers are clamped to the array.\<close>
  "splice xs start deleteCount =
     (let len = int (length xs);
          actualStart = (if start < 0 then max (len + start) 0 else min start len);
          actualDeleteCount = min (max deleteCount 0) (len - actualStart)
      in take (nat actualStart) xs @ drop (nat (actualStart + actualDeleteCount)) xs)"

text \<open>
  \<^verbatim>\<open>Array.prototype.sort\<close> with a comparator is stable, and an element \<open>x\<close> may stay in
  front of \<open>y\<close> when the comparator gives a result \<open>\<le> 0\<close>. It is modelled by stable
  insertion sort, which is the result the language fixes for every consistent comparator.
\<close>

fun sort_insert :: "('a \<Rightarrow> 'a \<Rightarrow> int) \<Rightarrow> 'a \<Rightarrow> 'a list \<Rightarrow> 'a list" where
  "sort_insert cmp x [] = [x]"
| "sort_insert cmp x (y # ys) =
     (if cmp x y \<le> 0 then x # y # ys else y # sort_insert cmp x ys)"

definition sort_js :: "('a \<Rightarrow> 'a \<Rightarrow> int) \<Rightarrow> 'a list \<Rightarrow> 'a list" where
  "sort_js cmp xs = foldr (sort_insert cmp) xs []"

subsection \<open>updateBook\<close>

definition bids_comparefn ::
  "(string \<Rightarrow> 'v::linorder num) \<Rightarrow> OkxMarketDepthLevel \<Rightarrow> OkxMarketDepthLevel \<Rightarrow> int" where
  "bids_comparefn pf a b = num_minus (pf (price_level b)) (pf (price_level a))"

definition asks_comparefn ::
  "(string \<Rightarrow> 'v::linorder num) \<Rightarrow> OkxMarketDepthLevel \<Rightarrow> OkxMarketDepthLevel \<Rightarrow> int" where
  "asks_comparefn pf a b = num_minus (pf (price_level a)) (pf (price_level b))"

definition update_bid ::
  "(string \<Rightarrow> 'v::{linorder,zero} num) \<Rightarrow> OkxMarketDepthLevel list \<Rightarrow> OkxMarketDepthLevel
     \<Rightarrow> OkxMarketDepthLevel list" where
  \<comment> \<open>One round of the \<^verbatim>\<open>bidsList.forEach\<close> loop on \<^verbatim>\<open>self.bids\<close>.\<close>
  "update_bid pf bs event =
     (let eventIndex = findIndex (\<lambda>bid. price_level bid = price_level event) bs
      in if new_quantity event = ''0'' \<and> eventIndex \<noteq> - 1 then splice bs eventIndex 1
         else if num_gt_zero (pf (new_quantity event)) \<and> eventIndex = - 1
              then sort_js (bids_comparefn pf) (event # bs)
         else bs)"

definition update_ask ::
  "(string \<Rightarrow> 'v::{linorder,zero} num) \<Rightarrow> OkxMarketDepthLevel list \<Rightarrow> OkxMarketDepthLevel
     \<Rightarrow> OkxMarketDepthLevel list" where
  \<comment> \<open>One round of the \<^verbatim>\<open>asksList.forEach\<close> loop on \<^verbatim>\<open>self.asks\<close>.\<close>
  "update_ask pf as event =
     (let eventIndex = findIndex (\<lambda>ask. price_level ask = price_level event) as
      in if new_quantity event = ''0'' \<and> eventIndex \<noteq> - 1 then splice as eventIndex 1
         else if num_gt_zero (pf (new_quantity event)) \<and> eventIndex = - 1
              then sort_js (asks_comparefn pf) (event # as)
         else as)"

definition updateBook ::
  "(string \<Rightarrow> 'v::{linorder,zero} num) \<Rightarrow> OkxMarketDepthEvent \<Rightarrow> 's OKXSpotPublicConnector_scheme
     \<Rightarrow> 's OKXSpotPublicConnector_scheme" where
  "updateBook pf event self =
     (let eventData = updates event;
          bidsList = filter (\<lambda>e. side e = ''bid'') eventData;
          asksList = filter (\<lambda>e. side e = ''offer'') eventData
      in if type event = ''snapshot''
         then self\<lparr>bids := bidsList, asks := asksList\<rparr>
         else self\<lparr>bids := foldl (update_bid pf) (bids self) bidsList,
                   asks := foldl (update_ask pf) (asks self) asksList\<rparr>)"

subsection \<open>createTopOfBook\<close>

record ('v, 't) TopOfBook =
  symbol :: string
  connectorType :: string
  event :: string
  timestamp :: 't
  askPrice :: "'v num"
  askSize :: "'v num"
  bidPrice :: "'v num"
  bidSize :: "'v num"

definition createTopOfBook ::
  "(string \<Rightarrow> 'v num) \<Rightarrow> (string \<Rightarrow> 't) \<Rightarrow> 's OKXSpotPublicConnector_scheme \<Rightarrow> string
     \<Rightarrow> ('v, 't) TopOfBook option" where
  \<comment> \<open>\<open>getTime\<close> stands for \<^verbatim>\<open>(new Date(timestamp)).getTime()\<close>; \<open>None\<close> is \<^verbatim>\<open>null\<close>.\<close>
  "createTopOfBook pf getTime self ts =
     (if length (bids self) = 0 \<or> length (asks self) = 0 then None
      else Some \<lparr>symbol = sklSymbol self,
                 connectorType = ''Okx'',
                 event = ''TopOfBook'',
                 timestamp = getTime ts,
                 askPrice = pf (price_level (asks self ! 0)),
                 askSize = pf (new_quantity (asks self ! 0)),
                 bidPrice = pf (price_level (bids self ! 0)),
                 bidSize = pf (new_quantity (bids self ! 0))\<rparr>)"

subsection \<open>The message handler, for messages that carry market depth\<close>

text \<open>
  \<^verbatim>\<open>OkxEvent\<close> with \<^verbatim>\<open>data\<close> holding market-depth events; its fields \<^verbatim>\<open>event\<close> and
  \<^verbatim>\<open>timestamp\<close> are \<open>okx_event\<close> and \<open>okx_timestamp\<close> here. The handler's argument is
  the parsed message, \<open>None\<close> when \<^verbatim>\<open>JSON.parse\<close> throws. In \<^verbatim>\<open>createSklEvent\<close>, the
  trade and ticker branches read \<^verbatim>\<open>event.trades\<close> and \<^verbatim>\<open>event.tickers\<close>, which a
  market-depth event does not have: mapping over them throws, and the handler's
  \<^verbatim>\<open>catch\<close> logs the error.
\<close>

record OkxEvent =
  okx_event :: string
  channel :: string
  msg :: string
  okx_timestamp :: string
  sequence_num :: nat
  data :: "OkxMarketDepthEvent list"

datatype js_error = TypeError | SyntaxError | ReferenceError

datatype 'e handled = OnMessage "'e list" | Log_no_messages | Log_no_handler | Log_error js_error

definition getEventType :: "OkxEvent \<Rightarrow> string option" where
  "getEventType message =
     (if okx_event message \<noteq> ''error''
      then (if channel message = ''trades'' then Some ''Trade''
            else if channel message = ''books'' then Some ''TopOfBook''
            else if channel message = ''tickers'' then Some ''Ticker''
            else None)
      else None)"

definition createSklEvent ::
  "(string \<Rightarrow> 'v::{linorder,zero} num) \<Rightarrow> (string \<Rightarrow> 't) \<Rightarrow> string \<Rightarrow> OkxEvent
     \<Rightarrow> 's OKXSpotPublicConnector_scheme
     \<Rightarrow> 's OKXSpotPublicConnector_scheme \<times> (js_error + ('v, 't) TopOfBook option list)" where
  "createSklEvent pf getTime ev message self =
     (if ev = ''TopOfBook''
      then (let self' = foldl (\<lambda>s e. updateBook pf e s) self (data message)
            in (self', Inr [createTopOfBook pf getTime self' (okx_timestamp message)]))
      else if ev = ''Trade'' \<or> ev = ''Ticker''
      then (if data message = [] then (self, Inr []) else (self, Inl TypeError))
      else (self, Inr []))"

definition onmessage ::
  "(string \<Rightarrow> 'v::{linorder,zero} num) \<Rightarrow> (string \<Rightarrow> 't) \<Rightarrow> OkxEvent option
     \<Rightarrow> 's OKXSpotPublicConnector_scheme
     \<Rightarrow> 's OKXSpotPublicConnector_scheme \<times> ('v, 't) TopOfBook handled" where
  "onmessage pf getTime parsed self =
     (case parsed of
        None \<Rightarrow> (self, Log_error SyntaxError)
      | Some message \<Rightarrow>
          (case getEventType message of
             None \<Rightarrow> (self, Log_no_handler)
           | Some actionType \<Rightarrow>
               (case createSklEvent pf getTime actionType message self of
                  (self', Inl e) \<Rightarrow> (self', Log_error e)
                | (self', Inr messages) \<Rightarrow>
                    (let serializableMessages = map the (filter (\<lambda>m. m \<noteq> None) messages)
                     in if length serializableMessages > 0
                        then (self', OnMessage serializableMessages)
                        else (self', Log_no_messages)))))"

subsection \<open>The properties of the book, as the specification words them\<close>

definition num_gt :: "'v::linorder num \<Rightarrow> 'v num \<Rightarrow> bool" where
  \<comment> \<open>\<^verbatim>\<open>x > y\<close> on numbers: false when either is \<^verbatim>\<open>NaN\<close>.\<close>
  "num_gt x y = (case x of None \<Rightarrow> False
       | Some a \<Rightarrow> (case y of None \<Rightarrow> False | Some b \<Rightarrow> b < a))"

definition one_entry_per_price :: "OkxMarketDepthLevel list \<Rightarrow> bool" where
  "one_entry_per_price xs = distinct (map price_level xs)"

definition bids_descending ::
  "(string \<Rightarrow> 'v::linorder num) \<Rightarrow> OkxMarketDepthLevel list \<Rightarrow> bool" where
  "bids_descending pf xs =
     sorted_wrt (\<lambda>a b. num_gt (pf (price_level a)) (pf (price_level b))) xs"

definition asks_ascending ::
  "(string \<Rightarrow> 'v::linorder num) \<Rightarrow> OkxMarketDepthLevel list \<Rightarrow> bool" where
  "asks_ascending pf xs =
     sorted_wrt (\<lambda>a b. num_gt (pf (price_level b)) (pf (price_level a))) xs"

definition book_ordered ::
  "(string \<Rightarrow> 'v::linorder num) \<Rightarrow> 's OKXSpotPublicConnector_scheme \<Rightarrow> bool" where
  "book_ordered pf self =
     (one_entry_per_price (bids self) \<and> one_entry_per_price (asks self)
      \<and> bids_descending pf (bids self) \<and> asks_ascending pf (asks self))"

definition feed_prices :: "OkxMarketDepthEvent list \<Rightarrow> string set" where
  \<comment> \<open>The price strings that occur in a sequence of market-depth events.\<close>
  "feed_prices evs = price_level ` (\<Union>e\<in>set evs. set (updates e))"

definition declared_side ::
  "OkxMarketDepthLevel \<Rightarrow> 's OKXSpotPublicConnector_scheme \<Rightarrow> OkxMarketDepthLevel list" where
  \<comment> \<open>The side of the book that an update names.\<close>
  "declared_side u self =
     (if side u = ''bid'' then bids self else if side u = ''offer'' then asks self else [])"

definition replaced_in_place :: "OkxMarketDepthLevel \<Rightarrow> OkxMarketDepthLevel list \<Rightarrow> bool" where
  \<comment> \<open>The side has exactly one entry at the update's price, and it carries the update's
      quantity.\<close>
  "replaced_in_place u xs =
     (map new_quantity (filter (\<lambda>e. price_level e = price_level u) xs) = [new_quantity u])"

definition known_side :: "OkxMarketDepthLevel \<Rightarrow> bool" where
  "known_side u = (side u = ''bid'' \<or> side u = ''offer'')"

definition drop_unknown_sides :: "OkxMarketDepthEvent \<Rightarrow> OkxMarketDepthEvent" where
  "drop_unknown_sides d = d\<lparr>updates := filter known_side (updates d)\<rparr>"

text \<open>One side of the book with its prices among \<open>P\<close>, and the two sides together.\<close>

definition side_inv_bids ::
  "(string \<Rightarrow> 'v::linorder num) \<Rightarrow> string set \<Rightarrow> OkxMarketDepthLevel list \<Rightarrow> bool" where
  "side_inv_bids pf P xs =
     (price_level ` set xs \<subseteq> P \<and> one_entry_per_price xs \<and> bids_descending pf xs)"

definition side_inv_asks ::
  "(string \<Rightarrow> 'v::linorder num) \<Rightarrow> string set \<Rightarrow> OkxMarketDepthLevel list \<Rightarrow> bool" where
  "side_inv_asks pf P xs =
     (price_level ` set xs \<subseteq> P \<and> one_entry_per_price xs \<and> asks_ascending pf xs)"

definition book_inv ::
  "(string \<Rightarrow> 'v::linorder num) \<Rightarrow> string set \<Rightarrow> 's OKXSpotPublicConnector_scheme \<Rightarrow> bool" where
  "book_inv pf P self = (side_inv_bids pf P (bids self) \<and> side_inv_asks pf P (asks self))"

subsection \<open>Concrete inputs\<close>

abbreviation level :: "string \<Rightarrow> string \<Rightarrow> string \<Rightarrow> OkxMarketDepthLevel" where
  "level s p q \<equiv>
     \<lparr>side = s, event_time = ''2024-01-01T00:00:00Z'', price_level = p, new_quantity = q\<rparr>"

abbreviation depth_event :: "string \<Rightarrow> OkxMarketDepthLevel list \<Rightarrow> OkxMarketDepthEvent" where
  "depth_event t us \<equiv> \<lparr>type = t, product_id = ''BTC-USD'', updates = us\<rparr>"

abbreviation empty_book :: OKXSpotPublicConnector where
  "empty_book \<equiv> \<lparr>sklSymbol = ''BTCUSD'', bids = [], asks = []\<rparr>"

abbreviation book_100_101 :: OKXSpotPublicConnector where
  "book_100_101 \<equiv> \<lparr>sklSymbol = ''BTCUSD'', bids = [level ''bid'' ''100'' ''5''],
                     asks = [level ''offer'' ''101'' ''3'']\<rparr>"

section \<open>The private connector: batches and signed requests\<close>

subsection \<open>chunkArray\<close>

definition slice :: "'a list \<Rightarrow> int \<Rightarrow> int \<Rightarrow> 'a list" where
  \<comment> \<open>\<^verbatim>\<open>xs.slice(start, end)\<close>: negative positions count from the end, and both are
      clamped to the array.\<close>
  "slice xs start fin =
     (let len = int (length xs);
          k = (if start < 0 then max (len + start) 0 else min start len);
          final = (if fin < 0 then max (len + fin) 0 else min fin len)
      in take (nat (final - k)) (drop (nat k) xs))"

text \<open>
  The \<^verbatim>\<open>for\<close> loop of \<^verbatim>\<open>chunkArray\<close>, with its counter \<open>i\<close> and the array \<open>results\<close>
  built so far. With a chunk size of zero or less the counter never reaches the length
  of a non-empty array and the loop does not end: the result is then \<open>None\<close>.
\<close>

partial_function (option) chunkArray_loop ::
  "'a list \<Rightarrow> int \<Rightarrow> int \<Rightarrow> 'a list list \<Rightarrow> 'a list list option" where
  "chunkArray_loop array chunkSize i results =
     (if i < int (length array)
      then chunkArray_loop array chunkSize (i + chunkSize)
             (results @ [slice array i (i + chunkSize)])
      else Some results)"

declare chunkArray_loop.simps [code]

definition chunkArray :: "'a list \<Rightarrow> int \<Rightarrow> 'a list list option" where
  "chunkArray array chunkSize = chunkArray_loop array chunkSize 0 []"

text \<open>The chunks of a list, \<open>n\<close> entries at a time, as the specification words them.\<close>

function chunks :: "nat \<Rightarrow> 'a list \<Rightarrow> 'a list list" where
  "chunks n xs = (if n = 0 \<or> xs = [] then [] else take n xs # chunks n (drop n xs))"
  by pat_completeness auto
termination
  by (relation "measure (\<lambda>(n, xs). length xs)") auto

subsection \<open>placeOrders\<close>

text \<open>
  An order intent of \<^verbatim>\<open>BatchOrdersRequest\<close> (declared in the module \<^verbatim>\<open>types\<close>):
  \<^verbatim>\<open>placeOrders\<close> reads its \<^verbatim>\<open>side\<close>, here \<open>intent_side\<close>, and its \<^verbatim>\<open>quantity\<close>.
\<close>

record 'q OrderIntent =
  intent_side :: string
  quantity :: 'q

record OkxOrderArgs =
  order_side :: "string option"
  instId :: string
  tdMode :: string
  ordType :: string
  sz :: string

record OkxPlaceOrderRequest =
  request_id :: string
  op :: string
  args :: "OkxOrderArgs list"

definition OkxMaxBatchSize :: int where
  "OkxMaxBatchSize = 20"

definition invertedSideMap :: "string \<Rightarrow> string option" where
  "invertedSideMap s =
     (if s = ''Buy'' then Some ''BUY'' else if s = ''Sell'' then Some ''SELL'' else None)"

text \<open>
  The body of \<^verbatim>\<open>placeOrders\<close> as a function of what the name \<^verbatim>\<open>order\<close> stands for in
  its first statement, \<^verbatim>\<open>const side = invertedSideMap[order.side]\<close>: \<open>None\<close> when no
  scope binds the name, and reading it then throws \<^verbatim>\<open>ReferenceError\<close> before any other
  statement runs. \<open>toFixed8\<close> is \<^verbatim>\<open>quantity.toFixed(8)\<close> and \<open>orderId\<close> is the identifier
  made once from the clock and a random number. The result is the array \<^verbatim>\<open>batches\<close>,
  \<open>None\<close> inside \<open>Inr\<close> when the loop of \<^verbatim>\<open>chunkArray\<close> does not end; each batch then
  goes to \<^verbatim>\<open>postRequest\<close>.
\<close>

definition placeOrders_in_scope ::
  "'q OrderIntent option \<Rightarrow> ('q \<Rightarrow> string) \<Rightarrow> string \<Rightarrow> 'q OrderIntent list
     \<Rightarrow> js_error + OkxPlaceOrderRequest list list option" where
  "placeOrders_in_scope order_binding toFixed8 orderId request_orders =
     (case order_binding of
        None \<Rightarrow> Inl ReferenceError
      | Some order\<^sub>0 \<Rightarrow>
          (let side\<^sub>0 = invertedSideMap (intent_side order\<^sub>0);
               orders = map (\<lambda>order.
                   \<lparr>request_id = orderId, op = ''order'',
                    args = [\<lparr>order_side = side\<^sub>0, instId = ''BTC-USDT'', tdMode = ''cash'',
                             ordType = ''market'', sz = toFixed8 (quantity order)\<rparr>]\<rparr>)
                 request_orders
           in Inr (chunkArray orders OkxMaxBatchSize)))"

text \<open>
  \<^verbatim>\<open>placeOrders\<close> as it is written: where its first statement reads \<^verbatim>\<open>order\<close>, the name
  is bound neither in the function (its parameter is \<^verbatim>\<open>request\<close>, and the \<^verbatim>\<open>order\<close> of the
  arrow function further down is local to that function) nor in the class, the module or
  the global scope.
\<close>

definition placeOrders ::
  "('q \<Rightarrow> string) \<Rightarrow> string \<Rightarrow> 'q OrderIntent list
     \<Rightarrow> js_error + OkxPlaceOrderRequest list list option" where
  "placeOrders toFixed8 orderId request_orders =
     placeOrders_in_scope None toFixed8 orderId request_orders"

subsection \<open>Signed requests\<close>

text \<open>
  \<^verbatim>\<open>CryptoJS.HmacSHA256(message, key)\<close> and \<^verbatim>\<open>CryptoJS.enc.Base64.stringify\<close> are library
  functions: the definitions take them as the parameters \<open>HmacSHA256\<close> and \<open>Base64\<close>.
  \<open>ts\<close> is the text of the timestamp, which the code writes into the signed message and
  into the header by the same conversion of the same number.
\<close>

record Credential =
  key :: string
  secret :: string
  passphrase :: string

record http_request =
  http_method :: string
  url :: string
  headers :: "(string \<times> string) list"
  body :: "string option"

definition restUrl :: string where
  "restUrl = ''http://www.okx.com''"

definition postRequest ::
  "(string \<Rightarrow> string \<Rightarrow> 'h) \<Rightarrow> ('h \<Rightarrow> string) \<Rightarrow> ('p \<Rightarrow> string) \<Rightarrow> Credential \<Rightarrow> string
     \<Rightarrow> string \<Rightarrow> 'p \<Rightarrow> http_request" where
  \<comment> \<open>The request that \<^verbatim>\<open>postRequest\<close> hands to \<^verbatim>\<open>axios.post\<close>; \<open>stringify\<close> is
      \<^verbatim>\<open>JSON.stringify\<close> on the parameters.\<close>
  "postRequest HmacSHA256 Base64 stringify credential ts endpoint params =
     (let method = ''POST'';
          requestPath = ''/api/v5'' @ endpoint;
          body = stringify params;
          sign = Base64 (HmacSHA256 (ts @ method @ requestPath @ body) (secret credential))
      in \<lparr>http_method = method,
          url = restUrl @ requestPath,
          headers = [(''OK-ACCESS-KEY'', key credential),
                     (''OK-ACCESS-SIGN'', sign),
                     (''OK-ACCESS-TIMESTAMP'', ts),
                     (''OK-ACCESS-PASSPHRASE'', passphrase credential),
                     (''Content-Type'', ''application/json'')],
          body = Some body\<rparr>)"

definition getRequest ::
  "(string \<Rightarrow> string \<Rightarrow> 'h) \<Rightarrow> ('h \<Rightarrow> string) \<Rightarrow> ((string \<times> string) list \<Rightarrow> string)
     \<Rightarrow> Credential \<Rightarrow> string \<Rightarrow> string \<Rightarrow> (string \<times> string) list \<Rightarrow> http_request" where
  \<comment> \<open>The request that \<^verbatim>\<open>getRequest\<close> hands to \<^verbatim>\<open>axios.get\<close>; \<open>params\<close> is the object
      as its list of keys and values, and \<open>URLSearchParams\<close> renders it as a query.\<close>
  "getRequest HmacSHA256 Base64 URLSearchParams credential ts route params =
     (let queryString = '''';
          method = ''GET'';
          requestPath = ''/api/v5'' @ route;
          sign = Base64 (HmacSHA256 (ts @ method @ requestPath @ queryString) (secret credential));
          queryString = (if length (map fst params) > 0 then ''?'' @ URLSearchParams params
                         else queryString)
      in \<lparr>http_method = method,
          url = restUrl @ requestPath @ queryString,
          headers = [(''OK-ACCESS-KEY'', key credential),
                     (''OK-ACCESS-SIGN'', sign),
                     (''OK-ACCESS-TIMESTAMP'', ts),
                     (''OK-ACCESS-PASSPHRASE'', passphrase credential)],
          body = None\<rparr>)"

text \<open>The signer as the specification words it, with the key as the first argument of the HMAC.\<close>

definition RequestSigner ::
  "(string \<Rightarrow> string \<Rightarrow> 'h) \<Rightarrow> ('h \<Rightarrow> string) \<Rightarrow> string \<Rightarrow> string \<Rightarrow> string \<Rightarrow> string
     \<Rightarrow> string \<Rightarrow> string" where
  "RequestSigner HMAC_SHA256 Base64 secret_key ts method path body_text =
     Base64 (HMAC_SHA256 secret_key (ts @ method @ path @ body_text))"

subsection \<open>The private session\<close>

text \<open>
  What the connector writes to its socket: a control message \<^verbatim>\<open>{op, args}\<close> passed
  through \<^verbatim>\<open>JSON.stringify\<close> once (\<open>Json\<close>) or twice (\<open>Json_of_json\<close>, as \<^verbatim>\<open>authenticate\<close>
  does with the login message), or the ping.
\<close>

datatype ws_arg =
  Channel string string
| Login string string string string

datatype control = Control string "ws_arg list"

datatype frame = Json control | Json_of_json control | Ping

text \<open>
  An inbound message of the private socket, by its \<^verbatim>\<open>event\<close> and \<^verbatim>\<open>code\<close>; the venue
  answers a login with the event \<^verbatim>\<open>login\<close> and the code \<^verbatim>\<open>0\<close>.
\<close>

datatype inbound = Inbound string string

datatype io = Sent frame | Received inbound

record private_session =
  credential :: Credential
  pingInterval :: bool
  trace :: "io list"

definition startPingInterval :: "private_session \<Rightarrow> private_session" where
  "startPingInterval self = self\<lparr>pingInterval := True\<rparr>"

definition send :: "frame \<Rightarrow> private_session \<Rightarrow> private_session" where
  "send f self = self\<lparr>trace := trace self @ [Sent f]\<rparr>"

definition authenticate ::
  "(string \<Rightarrow> string \<Rightarrow> 'h) \<Rightarrow> ('h \<Rightarrow> string) \<Rightarrow> string \<Rightarrow> private_session \<Rightarrow> private_session" where
  "authenticate HmacSHA256 Base64 ts self =
     (let method = ''GET'';
          requestPath = ''/users/self/verify'';
          sign = Base64 (HmacSHA256 (ts @ method @ requestPath) (secret (credential self)));
          authMessage = Control ''login''
            [Login (key (credential self)) (passphrase (credential self)) ts sign]
      in send (Json_of_json authMessage) self)"

definition subscribeToPrivateChannels :: "private_session \<Rightarrow> private_session" where
  "subscribeToPrivateChannels self =
     send (Json (Control ''subscribe'' [Channel ''orders'' ''ANY'', Channel ''account'' ''ANY''])) self"

definition private_on_open ::
  "(string \<Rightarrow> string \<Rightarrow> 'h) \<Rightarrow> ('h \<Rightarrow> string) \<Rightarrow> string \<Rightarrow> private_session \<Rightarrow> private_session" where
  \<comment> \<open>The handler of the socket's \<^verbatim>\<open>open\<close> event; \<open>ts\<close> is the text of \<^verbatim>\<open>Date.now()\<close>.\<close>
  "private_on_open HmacSHA256 Base64 ts self =
     subscribeToPrivateChannels (authenticate HmacSHA256 Base64 ts (startPingInterval self))"

definition private_onmessage :: "inbound \<Rightarrow> private_session \<Rightarrow> private_session" where
  \<comment> \<open>The handler of an inbound message turns it into events for the caller or a log
      line; it writes nothing to the socket and no field of the connector.\<close>
  "private_onmessage m self = self\<lparr>trace := trace self @ [Received m]\<rparr>"

fun is_subscribe :: "io \<Rightarrow> bool" where
  "is_subscribe (Sent (Json (Control o_p _))) = (o_p = ''subscribe'')"
| "is_subscribe (Sent (Json_of_json (Control o_p _))) = (o_p = ''subscribe'')"
| "is_subscribe _ = False"

fun subscribes_after_login_ack :: "bool \<Rightarrow> io list \<Rightarrow> bool" where
  \<comment> \<open>No subscribe is sent before a login success was received; the flag says whether
      one was received so far.\<close>
  "subscribes_after_login_ack acked [] = True"
| "subscribes_after_login_ack acked (Received (Inbound e c) # t) =
     subscribes_after_login_ack (acked \<or> (e = ''login'' \<and> c = ''0'')) t"
| "subscribes_after_login_ack acked (Sent f # t) =
     ((is_subscribe (Sent f) \<longrightarrow> acked) \<and> subscribes_after_login_ack acked t)"

abbreviation fresh_session :: private_session where
  "fresh_session \<equiv>
     \<lparr>credential = \<lparr>key = ''k'', secret = ''s'', passphrase = ''p''\<rparr>,
      pingInterval = False, trace = []\<rparr>"

section \<open>The public connection and its reconnect timer\<close>

text \<open>
  The connector in its environment: the state of the socket in \<^verbatim>\<open>publicWebsocketFeed\<close>
  (\<open>None\<close> before the first \<^verbatim>\<open>connect\<close>), the number of \<^verbatim>\<open>setTimeout\<close> callbacks that
  wait to run \<^verbatim>\<open>connect\<close> again, and what the connector did so far. The connector keeps
  no handle of a timer and no flag that says it was stopped.
\<close>

datatype readyState = CONNECTING | OPEN | CLOSING | CLOSED

datatype action = New_WebSocket | Socket_send control | Socket_close | Stop_called

record public_session =
  publicWebsocketFeed :: "readyState option"
  reconnect_timers :: nat
  actions :: "action list"

definition public_channels :: "ws_arg list" where
  "public_channels = [Channel ''tickers'' ''BTC-USD'', Channel ''trades'' ''BTC-USD'',
                      Channel ''books'' ''BTC-USD'']"

definition connect :: "public_session \<Rightarrow> public_session" where
  "connect self = self\<lparr>publicWebsocketFeed := Some CONNECTING,
                        actions := actions self @ [New_WebSocket]\<rparr>"

definition on_open :: "public_session \<Rightarrow> public_session" where
  \<comment> \<open>The \<^verbatim>\<open>open\<close> handler: \<^verbatim>\<open>subscribeToChannels\<close>.\<close>
  "on_open self =
     self\<lparr>publicWebsocketFeed := Some OPEN,
          actions := actions self @ [Socket_send (Control ''subscribe'' public_channels)]\<rparr>"

definition on_close :: "public_session \<Rightarrow> public_session" where
  \<comment> \<open>The \<^verbatim>\<open>close\<close> handler: \<^verbatim>\<open>setTimeout(() => self.connect(onMessage), 1000)\<close>.\<close>
  "on_close self =
     self\<lparr>publicWebsocketFeed := Some CLOSED, reconnect_timers := reconnect_timers self + 1\<rparr>"

definition timer_fires :: "public_session \<Rightarrow> public_session" where
  "timer_fires self =
     (if reconnect_timers self = 0 then self
      else connect (self\<lparr>reconnect_timers := reconnect_timers self - 1\<rparr>))"

definition stop :: "public_session \<Rightarrow> public_session" where
  \<comment> \<open>\<^verbatim>\<open>unsubscribeFromChannels\<close>, then \<^verbatim>\<open>close\<close>, inside \<^verbatim>\<open>try\<close>. On an open socket
      both reach the transport. In every other state nothing does: sending throws when
      there is no socket or it is still connecting, and the \<^verbatim>\<open>catch\<close> logs it; a socket
      that is closing or closed refuses or drops what is sent, and closing it again has
      no effect.\<close>
  "stop self =
     (let self = self\<lparr>actions := actions self @ [Stop_called]\<rparr>
      in case publicWebsocketFeed self of
           Some OPEN \<Rightarrow>
             self\<lparr>publicWebsocketFeed := Some CLOSING,
                  actions := actions self
                    @ [Socket_send (Control ''unsubscribe'' public_channels), Socket_close]\<rparr>
         | _ \<Rightarrow> self)"

datatype occurrence = Call_connect | Call_stop | Event_open | Event_close | Timer_fires

fun step :: "public_session \<Rightarrow> occurrence \<Rightarrow> public_session" where
  \<comment> \<open>One thing that happens to the connector; an event that the state of the socket
      rules out changes nothing.\<close>
  "step self Call_connect = connect self"
| "step self Call_stop = stop self"
| "step self Event_open =
     (if publicWebsocketFeed self = Some CONNECTING then on_open self else self)"
| "step self Event_close =
     (if publicWebsocketFeed self \<in> {Some CONNECTING, Some OPEN, Some CLOSING}
      then on_close self else self)"
| "step self Timer_fires = timer_fires self"

definition run :: "public_session \<Rightarrow> occurrence list \<Rightarrow> public_session" where
  "run self occs = foldl step self occs"

definition no_connection_after_stop :: "action list \<Rightarrow> bool" where
  \<comment> \<open>No socket is opened once \<^verbatim>\<open>stop\<close> was called.\<close>
  "no_connection_after_stop as = (New_WebSocket \<notin> set (dropWhile (\<lambda>a. a \<noteq> Stop_called) as))"

abbreviation initial_session :: public_session where
  "initial_session \<equiv> \<lparr>publicWebsocketFeed = None, reconnect_timers = 0, actions = []\<rparr>"

section \<open>Facts about the array operations\<close>

lemma findIndex_ge: "findIndex P xs \<ge> - 1"
  by (induction xs) (auto simp: Let_def)

lemma findIndex_none: "(findIndex P xs = - 1) = (\<forall>x\<in>set xs. \<not> P x)"
proof (induction xs)
  case Nil
  then show ?case by simp
next
  case (Cons x xs)
  have "findIndex P xs \<ge> - 1" by (rule findIndex_ge)
  then show ?case using Cons by (auto simp: Let_def)
qed

lemma findIndex_split:
  "findIndex P xs \<noteq> - 1 \<Longrightarrow>
     \<exists>pre x post. xs = pre @ x # post \<and> P x \<and> (\<forall>y\<in>set pre. \<not> P y)
        \<and> findIndex P xs = int (length pre)"
proof (induction xs)
  case Nil
  then show ?case by simp
next
  case (Cons a xs)
  show ?case
  proof (cases "P a")
    case True
    then have "a # xs = [] @ a # xs \<and> P a \<and> (\<forall>y\<in>set []. \<not> P y)
        \<and> findIndex P (a # xs) = int (length ([]::'a list))" by simp
    then show ?thesis by blast
  next
    case False
    with Cons.prems have ne: "findIndex P xs \<noteq> - 1" by (auto simp: Let_def split: if_splits)
    from Cons.IH [OF ne] obtain pre x post where
      h: "xs = pre @ x # post" "P x" "\<forall>y\<in>set pre. \<not> P y" "findIndex P xs = int (length pre)"
      by blast
    have "a # xs = (a # pre) @ x # post \<and> P x \<and> (\<forall>y\<in>set (a # pre). \<not> P y)
        \<and> findIndex P (a # xs) = int (length (a # pre))"
      using h False ne by (simp add: Let_def)
    then show ?thesis by blast
  qed
qed

lemma splice_one: "splice (pre @ x # post) (int (length pre)) 1 = pre @ post"
  by (simp add: splice_def Let_def nat_add_distrib)

lemma set_sort_insert: "set (sort_insert cmp x ys) = insert x (set ys)"
  by (induction ys) auto

lemma set_sort_js: "set (sort_js cmp xs) = set xs"
  unfolding sort_js_def by (induction xs) (auto simp: set_sort_insert)

lemma distinct_map_sort_insert:
  "distinct (map f (sort_insert cmp x ys)) = distinct (map f (x # ys))"
  by (induction ys) (auto simp: set_sort_insert)

lemma distinct_map_sort_js: "distinct (map f (sort_js cmp xs)) = distinct (map f xs)"
  unfolding sort_js_def
  by (induction xs) (auto simp: distinct_map_sort_insert set_sort_js [unfolded sort_js_def])

text \<open>
  Sorting by a comparator that is total and transitive on a set \<open>S\<close> holding the
  elements leaves the array ordered by it.
\<close>

lemma sorted_sort_insert:
  assumes tot: "\<forall>a\<in>S. \<forall>b\<in>S. cmp a b \<le> 0 \<or> cmp b a \<le> 0"
    and tr: "\<forall>a\<in>S. \<forall>b\<in>S. \<forall>c\<in>S. cmp a b \<le> 0 \<longrightarrow> cmp b c \<le> 0 \<longrightarrow> cmp a c \<le> 0"
    and x: "x \<in> S"
  shows "set ys \<subseteq> S \<Longrightarrow> sorted_wrt (\<lambda>a b. cmp a b \<le> 0) ys
           \<Longrightarrow> sorted_wrt (\<lambda>a b. cmp a b \<le> 0) (sort_insert cmp x ys)"
proof (induction ys)
  case Nil
  show ?case by simp
next
  case (Cons y ys)
  have y: "y \<in> S" and ys: "set ys \<subseteq> S" using Cons.prems(1) by simp_all
  have hd: "\<forall>z\<in>set ys. cmp y z \<le> 0" and tl: "sorted_wrt (\<lambda>a b. cmp a b \<le> 0) ys"
    using Cons.prems(2) by simp_all
  show ?case
  proof (cases "cmp x y \<le> 0")
    case True
    have "\<forall>z\<in>set ys. cmp x z \<le> 0"
    proof
      fix z assume z: "z \<in> set ys"
      then have zS: "z \<in> S" using ys by blast
      have "cmp y z \<le> 0" using hd z by blast
      with True x y zS tr show "cmp x z \<le> 0" by blast
    qed
    with True hd tl show ?thesis by simp
  next
    case False
    have yx: "cmp y x \<le> 0" using tot x y False by blast
    have ih: "sorted_wrt (\<lambda>a b. cmp a b \<le> 0) (sort_insert cmp x ys)"
      using Cons.IH [OF ys tl] .
    have "\<forall>z\<in>set (sort_insert cmp x ys). cmp y z \<le> 0"
      using yx hd by (simp add: set_sort_insert)
    with False ih show ?thesis by simp
  qed
qed

lemma sorted_sort_js:
  assumes tot: "\<forall>a\<in>S. \<forall>b\<in>S. cmp a b \<le> 0 \<or> cmp b a \<le> 0"
    and tr: "\<forall>a\<in>S. \<forall>b\<in>S. \<forall>c\<in>S. cmp a b \<le> 0 \<longrightarrow> cmp b c \<le> 0 \<longrightarrow> cmp a c \<le> 0"
  shows "set xs \<subseteq> S \<Longrightarrow> sorted_wrt (\<lambda>a b. cmp a b \<le> 0) (sort_js cmp xs)"
proof (induction xs)
  case Nil
  show ?case by (simp add: sort_js_def)
next
  case (Cons x xs)
  have x: "x \<in> S" and xs: "set xs \<subseteq> S" using Cons.prems by simp_all
  have "sorted_wrt (\<lambda>a b. cmp a b \<le> 0) (sort_insert cmp x (sort_js cmp xs))"
  proof (rule sorted_sort_insert [OF tot tr x])
    show "set (sort_js cmp xs) \<subseteq> S" using xs by (simp add: set_sort_js)
    show "sorted_wrt (\<lambda>a b. cmp a b \<le> 0) (sort_js cmp xs)" using Cons.IH [OF xs] .
  qed
  then show ?case by (simp add: sort_js_def)
qed

lemma sorted_wrt_distinct_keys:
  "sorted_wrt R xs \<Longrightarrow> distinct (map f xs) \<Longrightarrow> sorted_wrt (\<lambda>a b. R a b \<and> f a \<noteq> f b) xs"
  by (induction xs) auto

lemma num_minus_le0:
  "x \<noteq> None \<Longrightarrow> y \<noteq> None \<Longrightarrow> (num_minus x y \<le> 0) = (the x \<le> the y)"
  by (cases x; cases y) (auto simp: num_minus_def split: if_splits)

lemma sorted_bids_sort:
  assumes num: "\<forall>p\<in>P. pf p \<noteq> None" and sub: "price_level ` set xs \<subseteq> P"
  shows "sorted_wrt (\<lambda>a b. bids_comparefn pf a b \<le> 0) (sort_js (bids_comparefn pf) xs)"
proof (rule sorted_sort_js [where S = "{a. price_level a \<in> P}"])
  show "\<forall>a\<in>{a. price_level a \<in> P}. \<forall>b\<in>{a. price_level a \<in> P}.
          bids_comparefn pf a b \<le> 0 \<or> bids_comparefn pf b a \<le> 0"
    using num by (auto simp: bids_comparefn_def num_minus_le0)
  show "\<forall>a\<in>{a. price_level a \<in> P}. \<forall>b\<in>{a. price_level a \<in> P}. \<forall>c\<in>{a. price_level a \<in> P}.
          bids_comparefn pf a b \<le> 0 \<longrightarrow> bids_comparefn pf b c \<le> 0 \<longrightarrow> bids_comparefn pf a c \<le> 0"
    using num by (auto simp: bids_comparefn_def num_minus_le0)
  show "set xs \<subseteq> {a. price_level a \<in> P}" using sub by auto
qed

lemma sorted_asks_sort:
  assumes num: "\<forall>p\<in>P. pf p \<noteq> None" and sub: "price_level ` set xs \<subseteq> P"
  shows "sorted_wrt (\<lambda>a b. asks_comparefn pf a b \<le> 0) (sort_js (asks_comparefn pf) xs)"
proof (rule sorted_sort_js [where S = "{a. price_level a \<in> P}"])
  show "\<forall>a\<in>{a. price_level a \<in> P}. \<forall>b\<in>{a. price_level a \<in> P}.
          asks_comparefn pf a b \<le> 0 \<or> asks_comparefn pf b a \<le> 0"
    using num by (auto simp: asks_comparefn_def num_minus_le0)
  show "\<forall>a\<in>{a. price_level a \<in> P}. \<forall>b\<in>{a. price_level a \<in> P}. \<forall>c\<in>{a. price_level a \<in> P}.
          asks_comparefn pf a b \<le> 0 \<longrightarrow> asks_comparefn pf b c \<le> 0 \<longrightarrow> asks_comparefn pf a c \<le> 0"
    using num by (auto simp: asks_comparefn_def num_minus_le0)
  show "set xs \<subseteq> {a. price_level a \<in> P}" using sub by auto
qed

lemma strict_from_sorted:
  assumes num: "\<forall>p\<in>P. pf p \<noteq> None" and inj: "inj_on pf P"
    and sub: "price_level ` set xs \<subseteq> P"
    and d: "distinct (map price_level xs)"
    and s: "sorted_wrt (\<lambda>a b. num_minus (pf (price_level a)) (pf (price_level b)) \<le> 0) xs"
  shows "sorted_wrt (\<lambda>a b. num_gt (pf (price_level b)) (pf (price_level a))) xs"
proof -
  have s2: "sorted_wrt (\<lambda>a b. num_minus (pf (price_level a)) (pf (price_level b)) \<le> 0
                \<and> price_level a \<noteq> price_level b) xs"
    using sorted_wrt_distinct_keys [OF s d] .
  show ?thesis
  proof (rule sorted_wrt_mono_rel [OF _ s2])
    fix a b assume a: "a \<in> set xs" and b: "b \<in> set xs"
      and h: "num_minus (pf (price_level a)) (pf (price_level b)) \<le> 0 \<and> price_level a \<noteq> price_level b"
    have pa: "price_level a \<in> P" and pb: "price_level b \<in> P" using a b sub by auto
    from pa num have "pf (price_level a) \<noteq> None" by blast
    then obtain va where va: "pf (price_level a) = Some va" by blast
    from pb num have "pf (price_level b) \<noteq> None" by blast
    then obtain vb where vb: "pf (price_level b) = Some vb" by blast
    have "va \<noteq> vb" using inj pa pb h va vb by (auto simp: inj_on_def)
    moreover have "va \<le> vb" using h va vb by (auto simp: num_minus_def split: if_splits)
    ultimately show "num_gt (pf (price_level b)) (pf (price_level a))"
      using va vb by (simp add: num_gt_def)
  qed
qed

section \<open>One update against one side\<close>

lemma update_bid_cases:
  "update_bid pf bs u = bs
   \<or> (\<exists>pre x post. bs = pre @ x # post \<and> update_bid pf bs u = pre @ post)
   \<or> (price_level u \<notin> price_level ` set bs
        \<and> update_bid pf bs u = sort_js (bids_comparefn pf) (u # bs))"
proof (cases "findIndex (\<lambda>bid. price_level bid = price_level u) bs = - 1")
  case True
  then have "price_level u \<notin> price_level ` set bs" by (auto simp: findIndex_none)
  with True show ?thesis by (simp add: update_bid_def Let_def)
next
  case False
  from findIndex_split [OF False] obtain pre x post where
    h: "bs = pre @ x # post" "findIndex (\<lambda>bid. price_level bid = price_level u) bs = int (length pre)"
    by blast
  have "splice bs (findIndex (\<lambda>bid. price_level bid = price_level u) bs) 1 = pre @ post"
    unfolding h(2) unfolding h(1) by (rule splice_one)
  with False show ?thesis by (simp add: update_bid_def Let_def) (metis h(1))
qed

lemma update_ask_cases:
  "update_ask pf bs u = bs
   \<or> (\<exists>pre x post. bs = pre @ x # post \<and> update_ask pf bs u = pre @ post)
   \<or> (price_level u \<notin> price_level ` set bs
        \<and> update_ask pf bs u = sort_js (asks_comparefn pf) (u # bs))"
proof (cases "findIndex (\<lambda>ask. price_level ask = price_level u) bs = - 1")
  case True
  then have "price_level u \<notin> price_level ` set bs" by (auto simp: findIndex_none)
  with True show ?thesis by (simp add: update_ask_def Let_def)
next
  case False
  from findIndex_split [OF False] obtain pre x post where
    h: "bs = pre @ x # post" "findIndex (\<lambda>ask. price_level ask = price_level u) bs = int (length pre)"
    by blast
  have "splice bs (findIndex (\<lambda>ask. price_level ask = price_level u) bs) 1 = pre @ post"
    unfolding h(2) unfolding h(1) by (rule splice_one)
  with False show ?thesis by (simp add: update_ask_def Let_def) (metis h(1))
qed

lemma update_bid_inv:
  assumes num: "\<forall>p\<in>P. pf p \<noteq> None" and inj: "inj_on pf P"
    and u: "price_level u \<in> P" and inv: "side_inv_bids pf P bs"
  shows "side_inv_bids pf P (update_bid pf bs u)"
proof -
  from inv have sub: "price_level ` set bs \<subseteq> P" and d: "distinct (map price_level bs)"
    and s: "sorted_wrt (\<lambda>a b. num_gt (pf (price_level a)) (pf (price_level b))) bs"
    by (simp_all add: side_inv_bids_def one_entry_per_price_def bids_descending_def)
  consider (same) "update_bid pf bs u = bs"
    | (del) pre x post where "bs = pre @ x # post" "update_bid pf bs u = pre @ post"
    | (ins) "price_level u \<notin> price_level ` set bs"
        "update_bid pf bs u = sort_js (bids_comparefn pf) (u # bs)"
    using update_bid_cases [of pf bs u] by blast
  then show ?thesis
  proof cases
    case same
    with inv show ?thesis by simp
  next
    case del
    have "price_level ` set (pre @ post) \<subseteq> P" using sub del(1) by auto
    moreover have "distinct (map price_level (pre @ post))" using d del(1) by auto
    moreover have "sorted_wrt (\<lambda>a b. num_gt (pf (price_level a)) (pf (price_level b))) (pre @ post)"
      using s del(1) by (auto simp: sorted_wrt_append)
    ultimately show ?thesis using del(2)
      by (simp add: side_inv_bids_def one_entry_per_price_def bids_descending_def)
  next
    case ins
    let ?r = "sort_js (bids_comparefn pf) (u # bs)"
    have sub': "price_level ` set (u # bs) \<subseteq> P" using sub u by auto
    then have subr: "price_level ` set ?r \<subseteq> P" by (simp add: set_sort_js)
    have dr: "distinct (map price_level ?r)" using d ins(1) by (simp add: distinct_map_sort_js)
    have "sorted_wrt (\<lambda>a b. bids_comparefn pf a b \<le> 0) ?r"
      using sorted_bids_sort [OF num sub'] .
    then have "sorted_wrt (\<lambda>a b. num_minus (pf (price_level b)) (pf (price_level a)) \<le> 0) ?r"
      by (simp add: bids_comparefn_def)
    then have "sorted_wrt (\<lambda>b a. num_minus (pf (price_level b)) (pf (price_level a)) \<le> 0) (rev ?r)"
      by (simp add: sorted_wrt_rev)
    then have "sorted_wrt (\<lambda>a b. num_gt (pf (price_level b)) (pf (price_level a))) (rev ?r)"
      using strict_from_sorted [OF num inj, of "rev ?r"] subr dr
      by (simp add: rev_map [symmetric])
    then have "sorted_wrt (\<lambda>a b. num_gt (pf (price_level a)) (pf (price_level b))) ?r"
      by (simp add: sorted_wrt_rev)
    with subr dr ins(2) show ?thesis
      by (simp add: side_inv_bids_def one_entry_per_price_def bids_descending_def)
  qed
qed

lemma update_ask_inv:
  assumes num: "\<forall>p\<in>P. pf p \<noteq> None" and inj: "inj_on pf P"
    and u: "price_level u \<in> P" and inv: "side_inv_asks pf P bs"
  shows "side_inv_asks pf P (update_ask pf bs u)"
proof -
  from inv have sub: "price_level ` set bs \<subseteq> P" and d: "distinct (map price_level bs)"
    and s: "sorted_wrt (\<lambda>a b. num_gt (pf (price_level b)) (pf (price_level a))) bs"
    by (simp_all add: side_inv_asks_def one_entry_per_price_def asks_ascending_def)
  consider (same) "update_ask pf bs u = bs"
    | (del) pre x post where "bs = pre @ x # post" "update_ask pf bs u = pre @ post"
    | (ins) "price_level u \<notin> price_level ` set bs"
        "update_ask pf bs u = sort_js (asks_comparefn pf) (u # bs)"
    using update_ask_cases [of pf bs u] by blast
  then show ?thesis
  proof cases
    case same
    with inv show ?thesis by simp
  next
    case del
    have "price_level ` set (pre @ post) \<subseteq> P" using sub del(1) by auto
    moreover have "distinct (map price_level (pre @ post))" using d del(1) by auto
    moreover have "sorted_wrt (\<lambda>a b. num_gt (pf (price_level b)) (pf (price_level a))) (pre @ post)"
      using s del(1) by (auto simp: sorted_wrt_append)
    ultimately show ?thesis using del(2)
      by (simp add: side_inv_asks_def one_entry_per_price_def asks_ascending_def)
  next
    case ins
    let ?r = "sort_js (asks_comparefn pf) (u # bs)"
    have sub': "price_level ` set (u # bs) \<subseteq> P" using sub u by auto
    then have subr: "price_level ` set ?r \<subseteq> P" by (simp add: set_sort_js)
    have dr: "distinct (map price_level ?r)" using d ins(1) by (simp add: distinct_map_sort_js)
    have "sorted_wrt (\<lambda>a b. asks_comparefn pf a b \<le> 0) ?r"
      using sorted_asks_sort [OF num sub'] .
    then have "sorted_wrt (\<lambda>a b. num_minus (pf (price_level a)) (pf (price_level b)) \<le> 0) ?r"
      by (simp add: asks_comparefn_def)
    then have "sorted_wrt (\<lambda>a b. num_gt (pf (price_level b)) (pf (price_level a))) ?r"
      using strict_from_sorted [OF num inj subr dr] by simp
    with subr dr ins(2) show ?thesis
      by (simp add: side_inv_asks_def one_entry_per_price_def asks_ascending_def)
  qed
qed

lemma foldl_update_bid_inv:
  assumes num: "\<forall>p\<in>P. pf p \<noteq> None" and inj: "inj_on pf P"
  shows "price_level ` set us \<subseteq> P \<Longrightarrow> side_inv_bids pf P bs
           \<Longrightarrow> side_inv_bids pf P (foldl (update_bid pf) bs us)"
proof (induction us arbitrary: bs)
  case Nil
  then show ?case by simp
next
  case (Cons u us)
  have "side_inv_bids pf P (update_bid pf bs u)"
    using update_bid_inv [OF num inj _ Cons.prems(2), of u] Cons.prems(1) by simp
  then show ?case using Cons.IH Cons.prems(1) by simp
qed

lemma foldl_update_ask_inv:
  assumes num: "\<forall>p\<in>P. pf p \<noteq> None" and inj: "inj_on pf P"
  shows "price_level ` set us \<subseteq> P \<Longrightarrow> side_inv_asks pf P bs
           \<Longrightarrow> side_inv_asks pf P (foldl (update_ask pf) bs us)"
proof (induction us arbitrary: bs)
  case Nil
  then show ?case by simp
next
  case (Cons u us)
  have "side_inv_asks pf P (update_ask pf bs u)"
    using update_ask_inv [OF num inj _ Cons.prems(2), of u] Cons.prems(1) by simp
  then show ?case using Cons.IH Cons.prems(1) by simp
qed

lemma updateBook_delta_inv:
  assumes num: "\<forall>p\<in>P. pf p \<noteq> None" and inj: "inj_on pf P"
    and d: "type d \<noteq> ''snapshot''" and sub: "price_level ` set (updates d) \<subseteq> P"
    and inv: "book_inv pf P self"
  shows "book_inv pf P (updateBook pf d self)"
proof -
  have b: "price_level ` set (filter (\<lambda>e. side e = ''bid'') (updates d)) \<subseteq> P"
    and a: "price_level ` set (filter (\<lambda>e. side e = ''offer'') (updates d)) \<subseteq> P"
    using sub by auto
  from inv have ib: "side_inv_bids pf P (bids self)" and ia: "side_inv_asks pf P (asks self)"
    by (simp_all add: book_inv_def)
  show ?thesis
    using d foldl_update_bid_inv [OF num inj b ib] foldl_update_ask_inv [OF num inj a ia]
    by (simp add: updateBook_def book_inv_def Let_def)
qed

lemma foldl_updateBook_inv:
  assumes num: "\<forall>p\<in>P. pf p \<noteq> None" and inj: "inj_on pf P"
  shows "\<forall>d\<in>set deltas. type d \<noteq> ''snapshot'' \<and> price_level ` set (updates d) \<subseteq> P
         \<Longrightarrow> book_inv pf P self
         \<Longrightarrow> book_inv pf P (foldl (\<lambda>s d. updateBook pf d s) self deltas)"
proof (induction deltas arbitrary: self)
  case Nil
  then show ?case by simp
next
  case (Cons d deltas)
  have "book_inv pf P (updateBook pf d self)"
    using updateBook_delta_inv [OF num inj _ _ Cons.prems(2), of d] Cons.prems(1) by simp
  then show ?case using Cons.IH Cons.prems(1) by simp
qed

lemma updateBook_single_bid:
  "type d \<noteq> ''snapshot'' \<Longrightarrow> updates d = [u] \<Longrightarrow> side u = ''bid''
     \<Longrightarrow> updateBook pf d self = self\<lparr>bids := update_bid pf (bids self) u\<rparr>"
  by (simp add: updateBook_def Let_def)

lemma updateBook_single_offer:
  "type d \<noteq> ''snapshot'' \<Longrightarrow> updates d = [u] \<Longrightarrow> side u = ''offer''
     \<Longrightarrow> updateBook pf d self = self\<lparr>asks := update_ask pf (asks self) u\<rparr>"
  by (simp add: updateBook_def Let_def)

lemma update_bid_present_positive:
  assumes "num_gt_zero (pf (new_quantity u))" "pf ''0'' = Some 0"
    "price_level u \<in> price_level ` set xs"
  shows "update_bid pf xs u = xs"
proof -
  have "new_quantity u \<noteq> ''0''" using assms(1,2) by (auto simp: num_gt_zero_def)
  moreover have "findIndex (\<lambda>bid. price_level bid = price_level u) xs \<noteq> - 1"
    using assms(3) by (auto simp: findIndex_none)
  ultimately show ?thesis by (simp add: update_bid_def Let_def)
qed

lemma update_ask_present_positive:
  assumes "num_gt_zero (pf (new_quantity u))" "pf ''0'' = Some 0"
    "price_level u \<in> price_level ` set xs"
  shows "update_ask pf xs u = xs"
proof -
  have "new_quantity u \<noteq> ''0''" using assms(1,2) by (auto simp: num_gt_zero_def)
  moreover have "findIndex (\<lambda>ask. price_level ask = price_level u) xs \<noteq> - 1"
    using assms(3) by (auto simp: findIndex_none)
  ultimately show ?thesis by (simp add: update_ask_def Let_def)
qed

lemma update_bid_zero_absent:
  assumes "new_quantity u = ''0''" "pf ''0'' = Some 0" "price_level u \<notin> price_level ` set xs"
  shows "update_bid pf xs u = xs"
proof -
  have "findIndex (\<lambda>bid. price_level bid = price_level u) xs = - 1"
    unfolding findIndex_none using assms(3) by (metis image_eqI)
  then show ?thesis using assms(1,2) by (simp add: update_bid_def Let_def num_gt_zero_def)
qed

lemma update_ask_zero_absent:
  assumes "new_quantity u = ''0''" "pf ''0'' = Some 0" "price_level u \<notin> price_level ` set xs"
  shows "update_ask pf xs u = xs"
proof -
  have "findIndex (\<lambda>ask. price_level ask = price_level u) xs = - 1"
    unfolding findIndex_none using assms(3) by (metis image_eqI)
  then show ?thesis using assms(1,2) by (simp add: update_ask_def Let_def num_gt_zero_def)
qed

lemma update_bid_zero_present:
  assumes "new_quantity u = ''0''" "price_level u \<in> price_level ` set xs"
  shows "\<exists>pre x post. xs = pre @ x # post \<and> price_level x = price_level u
           \<and> price_level u \<notin> price_level ` set pre \<and> update_bid pf xs u = pre @ post"
proof -
  have ne: "findIndex (\<lambda>bid. price_level bid = price_level u) xs \<noteq> - 1"
    using assms(2) by (auto simp: findIndex_none)
  from findIndex_split [OF ne] obtain pre x post where
    h: "xs = pre @ x # post" "price_level x = price_level u"
       "\<forall>y\<in>set pre. price_level y \<noteq> price_level u"
       "findIndex (\<lambda>bid. price_level bid = price_level u) xs = int (length pre)"
    by blast
  have "splice xs (findIndex (\<lambda>bid. price_level bid = price_level u) xs) 1 = pre @ post"
    unfolding h(4) unfolding h(1) by (rule splice_one)
  then have "update_bid pf xs u = pre @ post" using ne assms(1) by (simp add: update_bid_def Let_def)
  moreover have "price_level u \<notin> price_level ` set pre" using h(3) by auto
  ultimately show ?thesis using h(1,2) by blast
qed

lemma update_ask_zero_present:
  assumes "new_quantity u = ''0''" "price_level u \<in> price_level ` set xs"
  shows "\<exists>pre x post. xs = pre @ x # post \<and> price_level x = price_level u
           \<and> price_level u \<notin> price_level ` set pre \<and> update_ask pf xs u = pre @ post"
proof -
  have ne: "findIndex (\<lambda>ask. price_level ask = price_level u) xs \<noteq> - 1"
    using assms(2) by (auto simp: findIndex_none)
  from findIndex_split [OF ne] obtain pre x post where
    h: "xs = pre @ x # post" "price_level x = price_level u"
       "\<forall>y\<in>set pre. price_level y \<noteq> price_level u"
       "findIndex (\<lambda>ask. price_level ask = price_level u) xs = int (length pre)"
    by blast
  have "splice xs (findIndex (\<lambda>ask. price_level ask = price_level u) xs) 1 = pre @ post"
    unfolding h(4) unfolding h(1) by (rule splice_one)
  then have "update_ask pf xs u = pre @ post" using ne assms(1) by (simp add: update_ask_def Let_def)
  moreover have "price_level u \<notin> price_level ` set pre" using h(3) by auto
  ultimately show ?thesis using h(1,2) by blast
qed

lemma filter_known_side:
  "filter (\<lambda>e. side e = ''bid'') (filter known_side xs) = filter (\<lambda>e. side e = ''bid'') xs"
  "filter (\<lambda>e. side e = ''offer'') (filter known_side xs) = filter (\<lambda>e. side e = ''offer'') xs"
  by (induction xs) (auto simp: known_side_def)

lemma updateBook_drop_unknown:
  "updateBook pf (drop_unknown_sides d) self = updateBook pf d self"
  by (simp add: updateBook_def drop_unknown_sides_def Let_def filter_known_side del: filter_filter)

lemma foldl_updateBook_drop_unknown:
  "foldl (\<lambda>s e. updateBook pf e s) self (map drop_unknown_sides ds)
     = foldl (\<lambda>s e. updateBook pf e s) self ds"
  by (induction ds arbitrary: self) (simp_all add: updateBook_drop_unknown)

section \<open>Facts about chunkArray\<close>

lemma slice_chunk:
  assumes "0 \<le> i" "0 < n"
  shows "slice array i (i + n) = take (nat n) (drop (nat i) array)"
proof (cases "i \<le> int (length array)")
  case True
  show ?thesis
  proof (cases "i + n \<le> int (length array)")
    case True
    with assms \<open>i \<le> int (length array)\<close> show ?thesis
      by (simp add: slice_def Let_def min_def)
  next
    case False
    then have "length array - nat i \<le> nat n" using assms by linarith
    moreover have "nat (int (length array) - i) = length array - nat i" using assms by linarith
    ultimately show ?thesis using assms True False
      by (simp add: slice_def Let_def min_def)
  qed
next
  case False
  then have "length array \<le> nat i" using assms by linarith
  with assms False show ?thesis by (simp add: slice_def Let_def min_def)
qed

lemma chunks_unfold: "0 < n \<Longrightarrow> xs \<noteq> [] \<Longrightarrow> chunks n xs = take n xs # chunks n (drop n xs)"
  by simp

lemma chunks_Nil: "chunks n [] = []"
  by simp

declare chunks.simps [simp del]

text \<open>
  With a chunk size above zero the loop ends, and its result is the accumulated chunks
  followed by the chunks of what is left of the array from position \<open>i\<close> on.
\<close>

lemma chunkArray_loop_chunks:
  assumes n: "0 < n"
  shows "0 \<le> i \<Longrightarrow> chunkArray_loop array n i results
           = Some (results @ chunks (nat n) (drop (nat i) array))"
proof (induction "length array - nat i" arbitrary: i results rule: less_induct)
  case less
  show ?case
  proof (cases "i < int (length array)")
    case True
    then have ne: "drop (nat i) array \<noteq> []" using less.prems by simp
    have m: "length array - nat (i + n) < length array - nat i" using True n less.prems by linarith
    have "chunkArray_loop array n i results
            = chunkArray_loop array n (i + n) (results @ [slice array i (i + n)])"
      using True by (subst chunkArray_loop.simps) simp
    also have "\<dots> = Some ((results @ [slice array i (i + n)])
                        @ chunks (nat n) (drop (nat (i + n)) array))"
      using less.hyps [OF m] less.prems n by simp
    also have "drop (nat (i + n)) array = drop (nat n) (drop (nat i) array)"
      using less.prems n by (simp add: nat_add_distrib add.commute)
    finally show ?thesis
      using chunks_unfold [of "nat n" "drop (nat i) array"] ne n
      by (simp add: slice_chunk [OF less.prems n])
  next
    case False
    then have "drop (nat i) array = []" using less.prems by simp
    moreover have "chunkArray_loop array n i results = Some results"
      using False by (subst chunkArray_loop.simps) simp
    ultimately show ?thesis by (simp add: chunks_Nil)
  qed
qed

lemma chunkArray_chunks: "0 < n \<Longrightarrow> chunkArray array n = Some (chunks (nat n) array)"
  using chunkArray_loop_chunks [of n 0 array "[]"] by (simp add: chunkArray_def)

lemma concat_chunks: "0 < n \<Longrightarrow> concat (chunks n xs) = xs"
proof (induction n xs rule: chunks.induct)
  case (1 n xs)
  show ?case
  proof (cases "xs = []")
    case True
    then show ?thesis by (simp add: chunks_Nil)
  next
    case False
    with 1 show ?thesis by (simp add: chunks_unfold)
  qed
qed

lemma length_in_chunks: "c \<in> set (chunks n xs) \<Longrightarrow> length c \<le> n \<and> c \<noteq> []"
proof (induction n xs rule: chunks.induct)
  case (1 n xs)
  show ?case
  proof (cases "n = 0 \<or> xs = []")
    case True
    with 1 show ?thesis by (auto simp: chunks.simps [of n xs])
  next
    case False
    with 1 show ?thesis by (auto simp: chunks.simps [of n xs])
  qed
qed

lemma length_chunks: "0 < n \<Longrightarrow> length (chunks n xs) = (length xs + n - 1) div n"
proof (induction n xs rule: chunks.induct)
  case (1 n xs)
  show ?case
  proof (cases "xs = []")
    case True
    then show ?thesis using 1(2) by (simp add: chunks_Nil)
  next
    case False
    then have ih: "length (chunks n (drop n xs)) = (length (drop n xs) + n - 1) div n"
      using 1 by simp
    have pos: "0 < length xs" using False by simp
    have "Suc ((length xs - n + n - 1) div n) = (length xs + n - 1) div n"
    proof (cases "n \<le> length xs")
      case True
      then have "length xs + n - 1 = (length xs - n + n - 1) + n" using 1(2) by simp
      then show ?thesis using 1(2) by (metis div_add_self2 less_numeral_extra(3) Suc_eq_plus1)
    next
      case False
      then have a: "length xs - n + n - 1 = n - 1" by simp
      have lo: "n * 1 \<le> length xs + n - 1" using pos by linarith
      have hi: "length xs + n - 1 < n * Suc 1" using False by simp
      have b: "(length xs + n - 1) div n = 1" using div_nat_eqI [OF lo hi] .
      show ?thesis using a b 1(2) by simp
    qed
    then show ?thesis using False 1(2) ih by (simp add: chunks_unfold)
  qed
qed

lemma ceiling_div_20: "\<lceil>real n / 20\<rceil> = int ((n + 19) div 20)"
  by linarith

section \<open>C1: one entry per price, bids descending, asks ascending\<close>

text \<open>
  C1 as stated, for every snapshot and every sequence of deltas, does not hold.
  \<^verbatim>\<open>updateBook\<close> stores the two sides of a snapshot as they arrive, so a snapshot that
  repeats a price or lists its bids out of order leaves the book so; and entries are
  matched by their price string, so a delta at \<^verbatim>\<open>"100.0"\<close> is added next to an entry at
  \<^verbatim>\<open>"100"\<close>, two bids at the same numeric price.
\<close>

theorem updateBook_order_counterexample:
  "\<not> book_ordered parseDecimal
       (updateBook parseDecimal
          (depth_event ''snapshot'' [level ''bid'' ''99'' ''1'', level ''bid'' ''100'' ''5'',
                                     level ''bid'' ''100'' ''7'', level ''offer'' ''101'' ''3''])
          empty_book)
   \<and> \<not> book_ordered parseDecimal
       (foldl (\<lambda>s d. updateBook parseDecimal d s)
          (updateBook parseDecimal
             (depth_event ''snapshot'' [level ''bid'' ''100'' ''5'', level ''offer'' ''101'' ''3''])
             empty_book)
          [depth_event ''update'' [level ''bid'' ''100.0'' ''2'']])"
  by code_simp

text \<open>
  C1, amended: when the book that the snapshot leaves has one entry per price string on
  each side, bids strictly descending and asks strictly ascending by numeric price, every
  price string of the feed reads as a number, and different price strings of the feed
  read as different numbers, then after any sequence of deltas each side still has one
  entry per price string, bids strictly descending and asks strictly ascending.
\<close>

theorem updateBook_keeps_book_ordered:
  assumes snap: "type snap = ''snapshot''"
    and ok: "book_ordered pf (updateBook pf snap self)"
    and deltas: "\<forall>d\<in>set deltas. type d \<noteq> ''snapshot''"
    and num: "\<forall>p\<in>feed_prices (snap # deltas). pf p \<noteq> None"
    and inj: "inj_on pf (feed_prices (snap # deltas))"
  shows "book_ordered pf (foldl (\<lambda>s d. updateBook pf d s) (updateBook pf snap self) deltas)"
proof -
  let ?P = "feed_prices (snap # deltas)"
  have "price_level ` set (bids (updateBook pf snap self)) \<subseteq> ?P"
    and "price_level ` set (asks (updateBook pf snap self)) \<subseteq> ?P"
    using snap by (auto simp: updateBook_def feed_prices_def Let_def)
  with ok have inv: "book_inv pf ?P (updateBook pf snap self)"
    by (simp add: book_inv_def side_inv_bids_def side_inv_asks_def book_ordered_def)
  have "\<forall>d\<in>set deltas. type d \<noteq> ''snapshot'' \<and> price_level ` set (updates d) \<subseteq> ?P"
    using deltas by (auto simp: feed_prices_def)
  from foldl_updateBook_inv [OF num inj this inv] show ?thesis
    by (simp add: book_inv_def side_inv_bids_def side_inv_asks_def book_ordered_def)
qed

text \<open>
  The theorem at a snapshot with a bid at 100 and an ask at 101, followed by the removal
  of the bid and by a delta that adds a bid at 99 and an ask at 102.5.
\<close>

theorem updateBook_keeps_book_ordered_witness:
  "book_ordered parseDecimal
     (foldl (\<lambda>s d. updateBook parseDecimal d s)
        (updateBook parseDecimal
           (depth_event ''snapshot'' [level ''bid'' ''100'' ''5'', level ''offer'' ''101'' ''3''])
           empty_book)
        [depth_event ''update'' [level ''bid'' ''100'' ''0''],
         depth_event ''update'' [level ''bid'' ''99'' ''2'', level ''offer'' ''102.5'' ''4'']])"
proof (rule updateBook_keeps_book_ordered)
  show "type (depth_event ''snapshot'' [level ''bid'' ''100'' ''5'', level ''offer'' ''101'' ''3'']) = ''snapshot''"
    by simp
  show "book_ordered parseDecimal (updateBook parseDecimal
           (depth_event ''snapshot'' [level ''bid'' ''100'' ''5'', level ''offer'' ''101'' ''3''])
           empty_book)"
    by code_simp
  show "\<forall>d\<in>set [depth_event ''update'' [level ''bid'' ''100'' ''0''],
         depth_event ''update'' [level ''bid'' ''99'' ''2'', level ''offer'' ''102.5'' ''4'']]. type d \<noteq> ''snapshot''"
    by simp
  have fp: "feed_prices (depth_event ''snapshot'' [level ''bid'' ''100'' ''5'', level ''offer'' ''101'' ''3''] #
       [depth_event ''update'' [level ''bid'' ''100'' ''0''],
         depth_event ''update'' [level ''bid'' ''99'' ''2'', level ''offer'' ''102.5'' ''4'']])
       = {''100'', ''101'', ''99'', ''102.5''}"
    by (auto simp: feed_prices_def)
  have v: "parseDecimal ''100'' = Some 100" "parseDecimal ''101'' = Some 101"
    "parseDecimal ''99'' = Some 99" "parseDecimal ''102.5'' = Some (205/2)"
    by code_simp+
  have n: "parseDecimal ''100'' \<noteq> None" "parseDecimal ''101'' \<noteq> None"
    "parseDecimal ''99'' \<noteq> None" "parseDecimal ''102.5'' \<noteq> None"
    by code_simp+
  show "\<forall>p\<in>feed_prices (depth_event ''snapshot'' [level ''bid'' ''100'' ''5'', level ''offer'' ''101'' ''3''] #
       [depth_event ''update'' [level ''bid'' ''100'' ''0''],
         depth_event ''update'' [level ''bid'' ''99'' ''2'', level ''offer'' ''102.5'' ''4'']]). parseDecimal p \<noteq> None"
    unfolding fp using n by simp
  show "inj_on parseDecimal (feed_prices (depth_event ''snapshot'' [level ''bid'' ''100'' ''5'', level ''offer'' ''101'' ''3''] #
       [depth_event ''update'' [level ''bid'' ''100'' ''0''],
         depth_event ''update'' [level ''bid'' ''99'' ''2'', level ''offer'' ''102.5'' ''4'']]))"
    unfolding fp using v by simp
qed

section \<open>C2: a positive quantity at a price that has an entry\<close>

text \<open>
  C2 as stated does not hold: the bid at 100 with quantity 5 stays as it is when a delta
  brings quantity 7 for that price, so the side has one entry at 100 and it does not
  carry the delta's quantity.
\<close>

theorem updateBook_replace_counterexample:
  "bids (updateBook parseDecimal (depth_event ''update'' [level ''bid'' ''100'' ''7''])
          \<lparr>sklSymbol = ''BTCUSD'', bids = [level ''bid'' ''100'' ''5''],
            asks = [level ''offer'' ''101'' ''3'']\<rparr>)
     = [level ''bid'' ''100'' ''5'']
   \<and> \<not> replaced_in_place (level ''bid'' ''100'' ''7'')
        (bids (updateBook parseDecimal (depth_event ''update'' [level ''bid'' ''100'' ''7''])
          \<lparr>sklSymbol = ''BTCUSD'', bids = [level ''bid'' ''100'' ''5''],
            asks = [level ''offer'' ''101'' ''3'']\<rparr>))"
  by code_simp

text \<open>
  C2, amended: a delta update with a quantity above zero whose price already has an entry
  on the side it names leaves the book unchanged. The entry keeps the quantity it had
  and no second entry is added: \<^verbatim>\<open>updateBook\<close> adds an update only when its price is not
  in the array. (\<open>pf\<close> reads \<^verbatim>\<open>"0"\<close> as zero, as \<^verbatim>\<open>parseFloat\<close> does.)
\<close>

theorem updateBook_existing_price_unchanged:
  assumes d: "type d \<noteq> ''snapshot''" "updates d = [u]"
    and s: "side u = ''bid'' \<or> side u = ''offer''"
    and q: "num_gt_zero (pf (new_quantity u))" and z: "pf ''0'' = Some 0"
    and p: "price_level u \<in> price_level ` set (declared_side u self)"
  shows "updateBook pf d self = self"
proof (cases "side u = ''bid''")
  case True
  then have "price_level u \<in> price_level ` set (bids self)" using p by (simp add: declared_side_def)
  from update_bid_present_positive [OF q z this] show ?thesis
    using updateBook_single_bid [OF d True, of pf self] by simp
next
  case False
  with s have o: "side u = ''offer''" by simp
  then have "price_level u \<in> price_level ` set (asks self)" using p by (simp add: declared_side_def)
  from update_ask_present_positive [OF q z this] show ?thesis
    using updateBook_single_offer [OF d o, of pf self] by simp
qed

text \<open>The theorem at an ask at 101 with quantity 3 and a delta bringing quantity 8.\<close>

theorem updateBook_existing_price_unchanged_witness:
  "updateBook parseDecimal (depth_event ''update'' [level ''offer'' ''101'' ''8''])
          \<lparr>sklSymbol = ''BTCUSD'', bids = [level ''bid'' ''100'' ''5''],
            asks = [level ''offer'' ''101'' ''3'']\<rparr>
   = \<lparr>sklSymbol = ''BTCUSD'', bids = [level ''bid'' ''100'' ''5''],
            asks = [level ''offer'' ''101'' ''3'']\<rparr>"
proof (rule updateBook_existing_price_unchanged [where u = "level ''offer'' ''101'' ''8''"])
  show "num_gt_zero (parseDecimal (new_quantity (level ''offer'' ''101'' ''8'')))" by code_simp
  show "parseDecimal ''0'' = Some 0" by code_simp
qed (simp_all add: declared_side_def)

section \<open>C3: the top of the book\<close>

text \<open>
  C3: \<^verbatim>\<open>createTopOfBook\<close> returns \<^verbatim>\<open>null\<close> whenever the bid side or the ask side is
  empty; when both have an entry it returns the price and the quantity of the first bid
  and of the first ask, read as numbers.
\<close>

theorem createTopOfBook_head:
  "(bids self = [] \<or> asks self = [] \<longrightarrow> createTopOfBook pf getTime self ts = None)
   \<and> (\<forall>b bs a as. bids self = b # bs \<and> asks self = a # as \<longrightarrow>
        createTopOfBook pf getTime self ts =
          Some \<lparr>symbol = sklSymbol self, connectorType = ''Okx'', event = ''TopOfBook'',
                timestamp = getTime ts,
                askPrice = pf (price_level a), askSize = pf (new_quantity a),
                bidPrice = pf (price_level b), bidSize = pf (new_quantity b)\<rparr>)"
  by (auto simp: createTopOfBook_def)

text \<open>The theorem at a book with no bid, and at a book with bids at 100 and 99 and an ask at 101.\<close>

theorem createTopOfBook_head_witness:
  "createTopOfBook parseDecimal (\<lambda>s. s)
      \<lparr>sklSymbol = ''BTCUSD'', bids = [], asks = [level ''offer'' ''101'' ''3'']\<rparr>
      ''2024-01-01T00:00:00Z'' = None
   \<and> createTopOfBook parseDecimal (\<lambda>s. s)
      \<lparr>sklSymbol = ''BTCUSD'', bids = [level ''bid'' ''100'' ''5'', level ''bid'' ''99'' ''2''],
        asks = [level ''offer'' ''101'' ''3'']\<rparr>
      ''2024-01-01T00:00:00Z''
     = Some \<lparr>symbol = ''BTCUSD'', connectorType = ''Okx'', event = ''TopOfBook'',
             timestamp = ''2024-01-01T00:00:00Z'',
             askPrice = Some 101, askSize = Some 3, bidPrice = Some 100, bidSize = Some 5\<rparr>"
proof -
  have v: "parseDecimal ''101'' = Some 101" "parseDecimal ''3'' = Some 3"
    "parseDecimal ''100'' = Some 100" "parseDecimal ''5'' = Some 5"
    by code_simp+
  show ?thesis
    using createTopOfBook_head [of "\<lparr>sklSymbol = ''BTCUSD'', bids = [], asks = [level ''offer'' ''101'' ''3'']\<rparr>"
        parseDecimal "\<lambda>s. s" "''2024-01-01T00:00:00Z''"]
      createTopOfBook_head [of "\<lparr>sklSymbol = ''BTCUSD'',
        bids = [level ''bid'' ''100'' ''5'', level ''bid'' ''99'' ''2''],
        asks = [level ''offer'' ''101'' ''3'']\<rparr>" parseDecimal "\<lambda>s. s" "''2024-01-01T00:00:00Z''"]
    by (simp add: v)
qed

section \<open>C4: a delta with quantity zero\<close>

text \<open>
  C4 as stated, for every quantity equal to zero, does not hold: \<^verbatim>\<open>updateBook\<close> removes
  an entry only when the quantity is the string \<^verbatim>\<open>"0"\<close>. The quantity \<^verbatim>\<open>"0.0"\<close> is zero
  as a number, and a delta carrying it at the price of an entry leaves the entry.
\<close>

theorem updateBook_zero_counterexample:
  "parseDecimal ''0.0'' = Some 0
   \<and> bids (updateBook parseDecimal (depth_event ''update'' [level ''bid'' ''100'' ''0.0''])
          \<lparr>sklSymbol = ''BTCUSD'', bids = [level ''bid'' ''100'' ''5''],
            asks = [level ''offer'' ''101'' ''3'']\<rparr>)
     = [level ''bid'' ''100'' ''5'']"
  by code_simp

text \<open>
  C4, amended: a delta update whose quantity is the string \<^verbatim>\<open>"0"\<close> leaves the book
  unchanged when its price has no entry on the side it names; when the price has one, the
  first entry of that side at that price is removed, and every other entry of the book
  stays, in the same order. (\<open>pf\<close> reads \<^verbatim>\<open>"0"\<close> as zero, as \<^verbatim>\<open>parseFloat\<close> does.)
\<close>

theorem updateBook_zero_string:
  assumes d: "type d \<noteq> ''snapshot''" "updates d = [u]"
    and s: "side u = ''bid'' \<or> side u = ''offer''"
    and q: "new_quantity u = ''0''" and z: "pf ''0'' = Some 0"
  shows "(price_level u \<notin> price_level ` set (declared_side u self)
            \<longrightarrow> updateBook pf d self = self)
       \<and> (price_level u \<in> price_level ` set (declared_side u self)
            \<longrightarrow> (\<exists>pre x post. declared_side u self = pre @ x # post
                    \<and> price_level x = price_level u
                    \<and> price_level u \<notin> price_level ` set pre
                    \<and> updateBook pf d self =
                        (if side u = ''bid'' then self\<lparr>bids := pre @ post\<rparr>
                         else self\<lparr>asks := pre @ post\<rparr>)))"
proof (cases "side u = ''bid''")
  case True
  have ds: "declared_side u self = bids self" using True by (simp add: declared_side_def)
  have ub: "updateBook pf d self = self\<lparr>bids := update_bid pf (bids self) u\<rparr>"
    using updateBook_single_bid [OF d True] .
  show ?thesis
  proof (intro conjI impI)
    assume "price_level u \<notin> price_level ` set (declared_side u self)"
    then show "updateBook pf d self = self"
      using update_bid_zero_absent [of u pf "bids self", OF q z] ub ds by simp
  next
    assume "price_level u \<in> price_level ` set (declared_side u self)"
    then have "price_level u \<in> price_level ` set (bids self)" using ds by simp
    from update_bid_zero_present [OF q this, of pf] obtain pre x post where
      "bids self = pre @ x # post" "price_level x = price_level u"
      "price_level u \<notin> price_level ` set pre" "update_bid pf (bids self) u = pre @ post"
      by blast
    then show "\<exists>pre x post. declared_side u self = pre @ x # post
                    \<and> price_level x = price_level u
                    \<and> price_level u \<notin> price_level ` set pre
                    \<and> updateBook pf d self =
                        (if side u = ''bid'' then self\<lparr>bids := pre @ post\<rparr>
                         else self\<lparr>asks := pre @ post\<rparr>)"
      using ub ds True by auto
  qed
next
  case False
  with s have o: "side u = ''offer''" by simp
  have ds: "declared_side u self = asks self" using o by (simp add: declared_side_def)
  have ub: "updateBook pf d self = self\<lparr>asks := update_ask pf (asks self) u\<rparr>"
    using updateBook_single_offer [OF d o] .
  show ?thesis
  proof (intro conjI impI)
    assume "price_level u \<notin> price_level ` set (declared_side u self)"
    then show "updateBook pf d self = self"
      using update_ask_zero_absent [of u pf "asks self", OF q z] ub ds by simp
  next
    assume "price_level u \<in> price_level ` set (declared_side u self)"
    then have "price_level u \<in> price_level ` set (asks self)" using ds by simp
    from update_ask_zero_present [OF q this, of pf] obtain pre x post where
      "asks self = pre @ x # post" "price_level x = price_level u"
      "price_level u \<notin> price_level ` set pre" "update_ask pf (asks self) u = pre @ post"
      by blast
    then show "\<exists>pre x post. declared_side u self = pre @ x # post
                    \<and> price_level x = price_level u
                    \<and> price_level u \<notin> price_level ` set pre
                    \<and> updateBook pf d self =
                        (if side u = ''bid'' then self\<lparr>bids := pre @ post\<rparr>
                         else self\<lparr>asks := pre @ post\<rparr>)"
      using ub ds False by auto
  qed
qed

text \<open>
  The theorem at a book with a bid at 100 and an ask at 101: a zero at 98 changes
  nothing, a zero at 100 removes the bid.
\<close>

theorem updateBook_zero_string_witness:
  "updateBook parseDecimal (depth_event ''update'' [level ''bid'' ''98'' ''0'']) book_100_101
     = book_100_101
   \<and> (\<exists>pre x post. bids book_100_101 = pre @ x # post \<and> price_level x = ''100''
         \<and> ''100'' \<notin> price_level ` set pre
         \<and> updateBook parseDecimal (depth_event ''update'' [level ''bid'' ''100'' ''0''])
              book_100_101 = book_100_101\<lparr>bids := pre @ post\<rparr>)"
proof -
  have z: "parseDecimal ''0'' = Some 0" by code_simp
  have a: "updateBook parseDecimal (depth_event ''update'' [level ''bid'' ''98'' ''0'']) book_100_101
     = book_100_101"
    using updateBook_zero_string [of "depth_event ''update'' [level ''bid'' ''98'' ''0'']"
        "level ''bid'' ''98'' ''0''" parseDecimal book_100_101, OF _ _ _ _ z]
    by (simp add: declared_side_def)
  have b: "\<exists>pre x post. bids book_100_101 = pre @ x # post \<and> price_level x = ''100''
         \<and> ''100'' \<notin> price_level ` set pre
         \<and> updateBook parseDecimal (depth_event ''update'' [level ''bid'' ''100'' ''0''])
              book_100_101 = book_100_101\<lparr>bids := pre @ post\<rparr>"
    using updateBook_zero_string [of "depth_event ''update'' [level ''bid'' ''100'' ''0'']"
        "level ''bid'' ''100'' ''0''" parseDecimal book_100_101, OF _ _ _ _ z]
    by (simp add: declared_side_def)
  from a b show ?thesis by blast
qed

section \<open>C5: stop and the reconnect timer\<close>

text \<open>
  C5 as stated does not hold. In the first run the socket closes, which leaves a
  reconnect timer waiting, and \<^verbatim>\<open>stop\<close> is called before the timer fires; in the second
  \<^verbatim>\<open>stop\<close> closes an open socket, and the \<^verbatim>\<open>close\<close> event that follows sets a timer. In
  both the timer fires after \<^verbatim>\<open>stop\<close> and \<^verbatim>\<open>connect\<close> opens a new socket.
\<close>

theorem stop_counterexample:
  "\<not> no_connection_after_stop
       (actions (run initial_session
          [Call_connect, Event_open, Event_close, Call_stop, Timer_fires]))
   \<and> \<not> no_connection_after_stop
       (actions (run initial_session
          [Call_connect, Event_open, Call_stop, Event_close, Timer_fires]))"
  by code_simp

text \<open>
  C5, amended: \<^verbatim>\<open>stop\<close> cancels no reconnect timer. On an open socket it sends the
  unsubscribe message and closes the transport; the timers that wait when \<^verbatim>\<open>stop\<close> is
  called still wait after it, and when one of them fires \<^verbatim>\<open>connect\<close> runs again and
  opens a new socket.
\<close>

theorem stop_keeps_reconnect_timers:
  "reconnect_timers (stop self) = reconnect_timers self
   \<and> (publicWebsocketFeed self = Some OPEN \<longrightarrow>
        actions (stop self)
          = actions self @ [Stop_called, Socket_send (Control ''unsubscribe'' public_channels),
                            Socket_close])
   \<and> (0 < reconnect_timers self \<longrightarrow>
        actions (timer_fires (stop self)) = actions (stop self) @ [New_WebSocket]
        \<and> publicWebsocketFeed (timer_fires (stop self)) = Some CONNECTING)"
  by (auto simp: stop_def timer_fires_def connect_def Let_def
      split: option.splits readyState.splits)

text \<open>
  The theorem at an open connection, and at the state after a connection was opened and
  then closed by the network.
\<close>

theorem stop_keeps_reconnect_timers_witness:
  "actions (stop (run initial_session [Call_connect, Event_open]))
      = [New_WebSocket, Socket_send (Control ''subscribe'' public_channels), Stop_called,
         Socket_send (Control ''unsubscribe'' public_channels), Socket_close]
   \<and> reconnect_timers (run initial_session [Call_connect, Event_open, Event_close]) = 1
   \<and> reconnect_timers (stop (run initial_session [Call_connect, Event_open, Event_close])) = 1
   \<and> actions (timer_fires (stop (run initial_session [Call_connect, Event_open, Event_close])))
      = [New_WebSocket, Socket_send (Control ''subscribe'' public_channels), Stop_called,
         New_WebSocket]"
proof -
  have o: "publicWebsocketFeed (run initial_session [Call_connect, Event_open]) = Some OPEN"
    by code_simp
  have p: "actions (run initial_session [Call_connect, Event_open])
      = [New_WebSocket, Socket_send (Control ''subscribe'' public_channels)]"
    by code_simp
  have a: "reconnect_timers (run initial_session [Call_connect, Event_open, Event_close]) = 1"
    by code_simp
  have b: "actions (stop (run initial_session [Call_connect, Event_open, Event_close]))
      = [New_WebSocket, Socket_send (Control ''subscribe'' public_channels), Stop_called]"
    by code_simp
  show ?thesis
    using stop_keeps_reconnect_timers [of "run initial_session [Call_connect, Event_open]"]
      stop_keeps_reconnect_timers [of "run initial_session [Call_connect, Event_open, Event_close]"]
    by (simp add: o p a b)
qed

section \<open>C6: login and subscription of the private session\<close>

text \<open>
  C6 as stated does not hold: the \<^verbatim>\<open>open\<close> handler, run on a session that has received
  nothing, sends the subscribe message. (The two functions stand in for the library's
  HMAC and Base64; the trace does not depend on them.)
\<close>

theorem private_on_open_counterexample:
  "\<not> subscribes_after_login_ack False
       (trace (private_on_open (\<lambda>m k. k @ m) (\<lambda>h. h) ''1700000000000'' fresh_session))"
  by code_simp

text \<open>
  C6, amended: on transport-open of a private session the connector starts the ping
  timer, sends the signed login message and then, in the same run of the handler and
  without waiting for any answer, sends the private subscribe message. The login is sent
  before the subscribe; nothing is received between the two.
\<close>

theorem private_on_open_login_then_subscribe:
  "trace (private_on_open HmacSHA256 Base64 ts self)
     = trace self
       @ [Sent (Json_of_json (Control ''login''
            [Login (key (credential self)) (passphrase (credential self)) ts
               (Base64 (HmacSHA256 (ts @ ''GET'' @ ''/users/self/verify'')
                  (secret (credential self))))])),
          Sent (Json (Control ''subscribe''
            [Channel ''orders'' ''ANY'', Channel ''account'' ''ANY'']))]
   \<and> pingInterval (private_on_open HmacSHA256 Base64 ts self)"
  by (simp add: private_on_open_def subscribeToPrivateChannels_def authenticate_def send_def
      startPingInterval_def Let_def)

section \<open>C7: batches of at most 20 orders\<close>

text \<open>
  \<^verbatim>\<open>chunkArray\<close> with the chunk size 20: the loop ends, and the result has \<open>\<lceil>N / 20\<rceil>\<close>
  chunks of at most 20 entries each whose concatenation, in order, is the array.
\<close>

lemma chunkArray_splits:
  "\<exists>batches. chunkArray array 20 = Some batches
     \<and> int (length batches) = \<lceil>real (length array) / 20\<rceil>
     \<and> (\<forall>b\<in>set batches. length b \<le> 20)
     \<and> concat batches = array"
proof -
  have b: "chunkArray array 20 = Some (chunks 20 array)"
    using chunkArray_chunks [of 20 array] by simp
  have n: "int (length (chunks 20 array)) = \<lceil>real (length array) / 20\<rceil>"
    using length_chunks [of 20 array] by (simp add: ceiling_div_20)
  have s: "\<forall>b\<in>set (chunks 20 array). length b \<le> 20"
    using length_in_chunks [of _ 20 array] by blast
  have c: "concat (chunks 20 array) = array" by (simp add: concat_chunks)
  show ?thesis using b n s c by simp
qed

text \<open>
  Were the name \<^verbatim>\<open>order\<close> bound where \<^verbatim>\<open>placeOrders\<close> first reads it, the batches would
  be as the specification says: \<open>\<lceil>N / 20\<rceil>\<close> of them, of at most 20 entries each, holding
  one request for each order of the input, in the input's order.
\<close>

lemma placeOrders_in_scope_bound:
  "\<exists>batches. placeOrders_in_scope (Some order\<^sub>0) toFixed8 orderId request_orders
       = Inr (Some batches)
     \<and> int (length batches) = \<lceil>real (length request_orders) / 20\<rceil>
     \<and> (\<forall>b\<in>set batches. length b \<le> 20)
     \<and> map request_id (concat batches) = map (\<lambda>order. orderId) request_orders
     \<and> map (\<lambda>r. map sz (args r)) (concat batches)
         = map (\<lambda>order. [toFixed8 (quantity order)]) request_orders"
proof -
  let ?orders = "map (\<lambda>order.
      \<lparr>request_id = orderId, op = ''order'',
       args = [\<lparr>order_side = invertedSideMap (intent_side order\<^sub>0), instId = ''BTC-USDT'',
                tdMode = ''cash'', ordType = ''market'', sz = toFixed8 (quantity order)\<rparr>]\<rparr>)
    request_orders"
  from chunkArray_splits [of ?orders] obtain batches where
    h: "chunkArray ?orders 20 = Some batches"
       "int (length batches) = \<lceil>real (length ?orders) / 20\<rceil>"
       "\<forall>b\<in>set batches. length b \<le> 20" "concat batches = ?orders"
    by blast
  have p: "placeOrders_in_scope (Some order\<^sub>0) toFixed8 orderId request_orders
       = Inr (Some batches)"
    using h(1) by (simp add: placeOrders_in_scope_def OkxMaxBatchSize_def Let_def)
  have l: "int (length batches) = \<lceil>real (length request_orders) / 20\<rceil>"
    using h(2) by simp
  have i: "map request_id (concat batches) = map (\<lambda>order. orderId) request_orders"
    unfolding h(4) by (simp add: comp_def)
  have q: "map (\<lambda>r. map sz (args r)) (concat batches)
         = map (\<lambda>order. [toFixed8 (quantity order)]) request_orders"
    unfolding h(4) by (simp add: comp_def)
  show ?thesis using p l h(3) i q by blast
qed

text \<open>As it is written, \<^verbatim>\<open>placeOrders\<close> throws for every input, before it builds any order.\<close>

lemma placeOrders_throws:
  "placeOrders toFixed8 orderId request_orders = Inl ReferenceError"
  by (simp add: placeOrders_def placeOrders_in_scope_def)

text \<open>
  C7 says that \<^verbatim>\<open>placeOrders\<close> splits every sequence of \<open>N\<close> orders into \<open>\<lceil>N / 20\<rceil>\<close>
  chunks of at most 20 entries whose concatenation is the sequence. On a request of two
  orders, which should give one chunk of two entries, \<^verbatim>\<open>placeOrders\<close> throws
  \<^verbatim>\<open>ReferenceError\<close> and gives no chunk.
\<close>

theorem placeOrders_ReferenceError:
  "placeOrders (\<lambda>q. q) ''skl:1700000000000_42''
     [\<lparr>intent_side = ''Buy'', quantity = ''0.50000000''\<rparr>,
      \<lparr>intent_side = ''Sell'', quantity = ''0.25000000''\<rparr>]
   = Inl ReferenceError"
  by (rule placeOrders_throws)

section \<open>C8: the signature of a request\<close>

text \<open>
  C8: the signature that \<^verbatim>\<open>postRequest\<close> puts into the header \<^verbatim>\<open>OK-ACCESS-SIGN\<close> is
  Base64 of HMAC-SHA256, keyed by the credential's secret, of the timestamp followed by
  the method, the path and the body, and these are the timestamp of the header and the
  method, path and body of the request that is sent. The signature of the login message
  of \<^verbatim>\<open>authenticate\<close> is the same function of its timestamp, \<^verbatim>\<open>GET\<close>, the path
  \<^verbatim>\<open>/users/self/verify\<close> and an empty body.
\<close>

theorem postRequest_signature:
  "map_of (headers (postRequest HmacSHA256 Base64 stringify cred ts endpoint params)) ''OK-ACCESS-SIGN''
     = Some (RequestSigner (\<lambda>k m. HmacSHA256 m k) Base64 (secret cred) ts ''POST''
               (''/api/v5'' @ endpoint) (stringify params))
   \<and> map_of (headers (postRequest HmacSHA256 Base64 stringify cred ts endpoint params))
       ''OK-ACCESS-TIMESTAMP'' = Some ts
   \<and> http_method (postRequest HmacSHA256 Base64 stringify cred ts endpoint params) = ''POST''
   \<and> url (postRequest HmacSHA256 Base64 stringify cred ts endpoint params)
       = restUrl @ ''/api/v5'' @ endpoint
   \<and> body (postRequest HmacSHA256 Base64 stringify cred ts endpoint params)
       = Some (stringify params)
   \<and> trace (authenticate HmacSHA256 Base64 ts self)
       = trace self @ [Sent (Json_of_json (Control ''login''
           [Login (key (credential self)) (passphrase (credential self)) ts
              (RequestSigner (\<lambda>k m. HmacSHA256 m k) Base64 (secret (credential self)) ts ''GET''
                 ''/users/self/verify'' '''')]))]"
  by (simp add: postRequest_def RequestSigner_def authenticate_def send_def Let_def)

section \<open>C9: an update whose side is not known\<close>

text \<open>
  C9 as stated does not hold: a books message whose only update has the side \<^verbatim>\<open>"buy"\<close>
  is handled without an error. The book stays as it was and the top of the book goes to
  the caller as for any other message.
\<close>

theorem unknown_side_counterexample:
  "onmessage parseDecimal (\<lambda>s. s)
     (Some \<lparr>okx_event = ''update'', channel = ''books'', msg = '''',
            okx_timestamp = ''2024-01-01T00:00:00Z'', sequence_num = 7,
            data = [depth_event ''update'' [level ''buy'' ''100.5'' ''2'']]\<rparr>)
     book_100_101
   = (book_100_101,
      OnMessage [\<lparr>symbol = ''BTCUSD'', connectorType = ''Okx'', event = ''TopOfBook'',
                  timestamp = ''2024-01-01T00:00:00Z'',
                  askPrice = Some 101, askSize = Some 3, bidPrice = Some 100, bidSize = Some 5\<rparr>])"
  by code_simp

text \<open>
  C9, amended: an update whose side is neither \<^verbatim>\<open>"bid"\<close> nor \<^verbatim>\<open>"offer"\<close> is ignored.
  \<^verbatim>\<open>updateBook\<close> gives the book it gives for the event without such updates, and the
  message handler gives the same book and the same outcome (the same events for the
  caller, or the same log entry) as for the message without them.
\<close>

theorem unknown_side_ignored:
  "updateBook pf (drop_unknown_sides d) self = updateBook pf d self
   \<and> onmessage pf getTime (Some (message\<lparr>data := map drop_unknown_sides (data message)\<rparr>)) self
       = onmessage pf getTime (Some message) self"
proof
  show "updateBook pf (drop_unknown_sides d) self = updateBook pf d self"
    by (rule updateBook_drop_unknown)
  have g: "getEventType (message\<lparr>data := map drop_unknown_sides (data message)\<rparr>)
             = getEventType message"
    by (simp add: getEventType_def)
  have c: "createSklEvent pf getTime a (message\<lparr>data := map drop_unknown_sides (data message)\<rparr>) self
             = createSklEvent pf getTime a message self" for a
    by (simp add: createSklEvent_def foldl_updateBook_drop_unknown)
  show "onmessage pf getTime (Some (message\<lparr>data := map drop_unknown_sides (data message)\<rparr>)) self
       = onmessage pf getTime (Some message) self"
    by (cases "getEventType message") (simp_all add: onmessage_def g c)
qed

section \<open>C10: the signature of a GET request\<close>

text \<open>
  C10: the signature of \<^verbatim>\<open>getRequest\<close> is computed over the timestamp, \<^verbatim>\<open>GET\<close> and the
  request path with an empty query string, whatever the parameters are: it is the
  signature of the same request without parameters. The query string made from the
  parameters is appended to the URL only.
\<close>

theorem getRequest_signs_without_query:
  "map_of (headers (getRequest HmacSHA256 Base64 URLSearchParams cred ts route params))
       ''OK-ACCESS-SIGN''
     = Some (Base64 (HmacSHA256 (ts @ ''GET'' @ ''/api/v5'' @ route) (secret cred)))
   \<and> map_of (headers (getRequest HmacSHA256 Base64 URLSearchParams cred ts route params))
       ''OK-ACCESS-SIGN''
     = map_of (headers (getRequest HmacSHA256 Base64 URLSearchParams cred ts route []))
       ''OK-ACCESS-SIGN''
   \<and> url (getRequest HmacSHA256 Base64 URLSearchParams cred ts route params)
     = restUrl @ ''/api/v5'' @ route
         @ (if params = [] then '''' else ''?'' @ URLSearchParams params)"
  by (simp add: getRequest_def Let_def)

end
